theory Spec2Isabelle
  imports Main "HOL-Library.Word"
begin

unbundle bit_operations_syntax

section \<open>Go strings, runes and the string builder\<close>

text \<open>
  A Go \<^verbatim>\<open>string\<close> is a sequence of bytes. A \<^verbatim>\<open>rune\<close> is an \<^verbatim>\<open>int32\<close>. The runes that
  \<^verbatim>\<open>for _, c := range s\<close> yields are code points between 0 and 0x10FFFF (an invalid
  byte yields 0xFFFD), never negative, so the model carries the loop variable \<open>c\<close> as a
  natural number; \<^verbatim>\<open>hexValue\<close>, which the program computes with \<^verbatim>\<open>int32\<close> arithmetic,
  is a 32-bit word.
\<close>

type_synonym byte = "8 word"
type_synonym gostring = "byte list"
type_synonym rune = "32 word"

definition bytes :: "string \<Rightarrow> gostring" where
  "bytes cs = map of_char cs"

definition rn :: "char \<Rightarrow> nat" where
  "rn ch = of_char ch"

definition RuneError :: nat where
  "RuneError = 0xFFFD"

definition locb_hicb :: "byte \<Rightarrow> bool" where
  "locb_hicb b = (0x80 \<le> b \<and> b \<le> 0xBF)"

text \<open>
  \<^verbatim>\<open>decoderune\<close> of the Go runtime, which the \<^verbatim>\<open>range\<close> loop over a string calls: the
  rune at the head of the string and the number of bytes it takes (the loop itself
  handles a byte below 0x80).
\<close>

fun decoderune :: "gostring \<Rightarrow> nat \<times> nat" where
  "decoderune [] = (RuneError, 1)"
| "decoderune (s0 # bs) =
    (if s0 < 0x80 then (unat s0, 1)
     else if 0xC0 \<le> s0 \<and> s0 < 0xE0 then
       (case bs of
          s1 # _ \<Rightarrow>
            (let r = unat (s0 AND 0x1F) * 64 + unat (s1 AND 0x3F)
             in if locb_hicb s1 \<and> 0x7F < r then (r, 2) else (RuneError, 1))
        | _ \<Rightarrow> (RuneError, 1))
     else if 0xE0 \<le> s0 \<and> s0 < 0xF0 then
       (case bs of
          s1 # s2 # _ \<Rightarrow>
            (let r = unat (s0 AND 0x0F) * 4096 + unat (s1 AND 0x3F) * 64 + unat (s2 AND 0x3F)
             in if locb_hicb s1 \<and> locb_hicb s2 \<and> 0x7FF < r \<and> \<not> (0xD800 \<le> r \<and> r \<le> 0xDFFF)
                then (r, 3) else (RuneError, 1))
        | _ \<Rightarrow> (RuneError, 1))
     else if 0xF0 \<le> s0 \<and> s0 < 0xF8 then
       (case bs of
          s1 # s2 # s3 # _ \<Rightarrow>
            (let r = unat (s0 AND 0x07) * 262144 + unat (s1 AND 0x3F) * 4096
                     + unat (s2 AND 0x3F) * 64 + unat (s3 AND 0x3F)
             in if locb_hicb s1 \<and> locb_hicb s2 \<and> locb_hicb s3 \<and> 0xFFFF < r \<and> r \<le> 0x10FFFF
                then (r, 4) else (RuneError, 1))
        | _ \<Rightarrow> (RuneError, 1))
     else (RuneError, 1))"

text \<open>The runes of \<^verbatim>\<open>for _, c := range s\<close>, in order.\<close>

function range_runes :: "gostring \<Rightarrow> nat list" where
  "range_runes [] = []"
| "range_runes (b # bs) = fst (decoderune (b # bs)) # range_runes (drop (snd (decoderune (b # bs)) - 1) bs)"
  by pat_completeness auto
termination
  by (relation "measure length") auto

text \<open>
  \<^verbatim>\<open>utf8.AppendRune\<close>: the UTF-8 encoding of a rune; a rune out of range or a surrogate
  is encoded as U+FFFD.
\<close>

definition AppendRune :: "rune \<Rightarrow> gostring" where
  "AppendRune r =
    (if r \<le> 0x7F then [ucast r]
     else if r \<le> 0x7FF then [0xC0 OR ucast (drop_bit 6 r), 0x80 OR (ucast r AND 0x3F)]
     else if r > 0x10FFFF \<or> (0xD800 \<le> r \<and> r \<le> 0xDFFF) then [0xEF, 0xBF, 0xBD]
     else if r \<le> 0xFFFF then
       [0xE0 OR ucast (drop_bit 12 r), 0x80 OR (ucast (drop_bit 6 r) AND 0x3F),
        0x80 OR (ucast r AND 0x3F)]
     else
       [0xF0 OR ucast (drop_bit 18 r), 0x80 OR (ucast (drop_bit 12 r) AND 0x3F),
        0x80 OR (ucast (drop_bit 6 r) AND 0x3F), 0x80 OR (ucast r AND 0x3F)])"

text \<open>\<^verbatim>\<open>strings.Builder.WriteRune\<close> on the buffer's contents.\<close>

definition WriteRune :: "gostring \<Rightarrow> rune \<Rightarrow> gostring" where
  "WriteRune b r = b @ AppendRune r"

text \<open>\<^verbatim>\<open>unicode.IsSpace\<close>: the code points with Unicode's White Space property.\<close>

definition unicode_IsSpace :: "nat \<Rightarrow> bool" where
  "unicode_IsSpace r =
    (if r \<le> 0xFF then r \<in> {0x09, 0x0A, 0x0B, 0x0C, 0x0D, 0x20, 0x85, 0xA0}
     else r = 0x1680 \<or> (0x2000 \<le> r \<and> r \<le> 0x200A) \<or> r = 0x2028 \<or> r = 0x2029
          \<or> r = 0x202F \<or> r = 0x205F \<or> r = 0x3000)"

section \<open>The quoter\<close>

record Options =
  FancyBackslash :: bool
  OnlySpaceIsSpace :: bool

text \<open>The type \<^verbatim>\<open>Error\<close> is a string; a Go \<^verbatim>\<open>error\<close> is nil or such a value.\<close>

type_synonym error = "gostring option"

definition MismatchedQuote :: gostring where
  "MismatchedQuote = bytes ''mismatched quote''"

definition IncompleteBackslash :: gostring where
  "IncompleteBackslash = bytes ''incomplete backslash sequence''"

text \<open>\<^verbatim>\<open>fmt.Sprintf("invalid backslash escape character '%c'", c)\<close>\<close>

definition invalidEscape :: "nat \<Rightarrow> gostring" where
  "invalidEscape c =
     bytes ''invalid backslash escape character '' @ [0x27] @ AppendRune (of_nat c) @ [0x27]"

datatype state = normal | quoted | backslash | hex

text \<open>
  A \<^verbatim>\<open>stateFunc\<close> is a function pointer. \<^verbatim>\<open>currentFunc\<close> only ever holds an entry
  \<^verbatim>\<open>stateFuncs[s]\<close>, so the model stores the index \<open>s\<close>; the field \<^verbatim>\<open>backslash\<close> holds
  one of two functions, named by a tag.
\<close>

datatype backslashFunc = simpleBackslashF | fancyBackslashF

definition isExactSpace :: "nat \<Rightarrow> bool" where
  "isExactSpace r = (r = rn CHR '' '')"

record quoter =
  buf :: gostring
  states :: "state list"
  currentFunc :: state
  partial :: bool
  isspace :: "nat \<Rightarrow> bool"
  backslashFn :: backslashFunc
  parseHex :: int
  hexValue :: rune
  indexes :: "nat list"
  err :: error

text \<open>The statement \<^verbatim>\<open>q.buf.WriteRune(r)\<close>.\<close>

definition buf_WriteRune :: "quoter \<Rightarrow> rune \<Rightarrow> quoter" where
  "buf_WriteRune q r = q\<lparr>buf := WriteRune (buf q) r\<rparr>"

definition push :: "quoter \<Rightarrow> state \<Rightarrow> quoter" where
  "push q s =
    (let q1 = (if length (states q) = 0 then q\<lparr>states := states q @ [normal]\<rparr> else q)
     in q1\<lparr>states := states q1 @ [s], currentFunc := s\<rparr>)"

definition pop :: "quoter \<Rightarrow> quoter" where
  "pop q =
    (if length (states q) > 1
     then (let q1 = q\<lparr>states := butlast (states q)\<rparr> in q1\<lparr>currentFunc := last (states q1)\<rparr>)
     else q)"

definition newWord :: "quoter \<Rightarrow> quoter" where
  "newWord q =
    (if \<not> partial q then q
     else q\<lparr>indexes := indexes q @ [length (buf q)], partial := False\<rparr>)"

definition simpleBackslash :: "quoter \<Rightarrow> nat \<Rightarrow> quoter" where
  "simpleBackslash q c = pop (buf_WriteRune q (of_nat c))"

definition fancyBackslash :: "quoter \<Rightarrow> nat \<Rightarrow> quoter" where
  "fancyBackslash q0 c =
    (let q = pop q0 in
     if c = rn CHR ''x'' then push (q\<lparr>hexValue := 0, parseHex := 2\<rparr>) hex
     else if c = rn CHR ''u'' then push (q\<lparr>hexValue := 0, parseHex := 4\<rparr>) hex
     else if c = rn CHR ''U'' then push (q\<lparr>hexValue := 0, parseHex := 8\<rparr>) hex
     else if c = rn CHR ''a'' then buf_WriteRune q 0x07
     else if c = rn CHR ''b'' then buf_WriteRune q 0x08
     else if c = rn CHR ''f'' then buf_WriteRune q 0x0C
     else if c = rn CHR ''n'' then buf_WriteRune q 0x0A
     else if c = rn CHR ''r'' then buf_WriteRune q 0x0D
     else if c = rn CHR ''t'' then buf_WriteRune q 0x09
     else if c = rn CHR ''v'' then buf_WriteRune q 0x0B
     else if c = rn (CHR 0x5C) then buf_WriteRune q 0x5C
     else if c = rn (CHR 0x22) then buf_WriteRune q 0x22
     else if c = rn (CHR 0x27) then buf_WriteRune q 0x27
     else buf_WriteRune (q\<lparr>err := Some (invalidEscape c)\<rparr>) (of_nat c))"

definition hexDigits :: "int list" where
  "hexDigits =
    [-1, -1, -1, -1, -1, -1, -1, -1, -1, -1, -1, -1, -1, -1, -1, -1,
     -1, -1, -1, -1, -1, -1, -1, -1, -1, -1, -1, -1, -1, -1, -1, -1,
     -1, -1, -1, -1, -1, -1, -1, -1, -1, -1, -1, -1, -1, -1, -1, -1,
     0, 1, 2, 3, 4, 5, 6, 7, 8, 9, -1, -1, -1, -1, -1, -1,
     -1, 10, 11, 12, 13, 14, 15, -1, -1, -1, -1, -1, -1, -1, -1, -1,
     -1, -1, -1, -1, -1, -1, -1, -1, -1, -1, -1, -1, -1, -1, -1, -1,
     -1, 10, 11, 12, 13, 14, 15, -1, -1, -1, -1, -1, -1, -1, -1, -1,
     -1, -1, -1, -1, -1, -1, -1, -1, -1, -1, -1, -1, -1, -1, -1, -1]"

definition stateNormal :: "quoter \<Rightarrow> nat \<Rightarrow> quoter" where
  "stateNormal q c =
    (if isspace q c then newWord q
     else (if c = rn (CHR 0x5C) then push q backslash
           else if c = rn (CHR 0x22) then push q quoted
           else buf_WriteRune q (of_nat c))\<lparr>partial := True\<rparr>)"

definition stateBackslash :: "quoter \<Rightarrow> nat \<Rightarrow> quoter" where
  "stateBackslash q c =
    (case backslashFn q of
       simpleBackslashF \<Rightarrow> simpleBackslash q c
     | fancyBackslashF \<Rightarrow> fancyBackslash q c)"

definition stateQuoted :: "quoter \<Rightarrow> nat \<Rightarrow> quoter" where
  "stateQuoted q c =
    (if c = rn (CHR 0x5C) then push q backslash
     else if c = rn (CHR 0x22) then pop q
     else buf_WriteRune q (of_nat c))"

text \<open>
  \<^verbatim>\<open>stateHex\<close> ends with the call \<^verbatim>\<open>q.currentFunc(q, c)\<close>, which is \<^verbatim>\<open>stateHex\<close> again
  when the pop left \<^verbatim>\<open>hex\<close> in \<^verbatim>\<open>currentFunc\<close>; nothing in the function bounds that
  recursion, so the result is an option, \<open>None\<close> for a call that does not return.
\<close>

partial_function (option) stateHex :: "quoter \<Rightarrow> nat \<Rightarrow> quoter option" where
  [code]: "stateHex q c =
    (if c < 128 \<and> hexDigits ! c \<noteq> -1 then
       (let q1 = q\<lparr>hexValue := hexValue q * 16 + of_int (hexDigits ! c)\<rparr>;
            q2 = q1\<lparr>parseHex := parseHex q1 - 1\<rparr>
        in if parseHex q2 = 0
           then Some (pop (buf_WriteRune q2 (hexValue q2)))
           else Some q2)
     else
       (let q1 = pop (buf_WriteRune q (hexValue q))
        in if currentFunc q1 = normal then Some (stateNormal q1 c)
           else if currentFunc q1 = quoted then Some (stateQuoted q1 c)
           else if currentFunc q1 = backslash then Some (stateBackslash q1 c)
           else stateHex q1 c))"

text \<open>\<^verbatim>\<open>next\<close>: the call \<^verbatim>\<open>q.currentFunc(q, c)\<close> through the table \<^verbatim>\<open>stateFuncs\<close>.\<close>

definition nextq :: "quoter \<Rightarrow> nat \<Rightarrow> quoter option" where
  "nextq q c =
    (case currentFunc q of
       normal \<Rightarrow> Some (stateNormal q c)
     | quoted \<Rightarrow> Some (stateQuoted q c)
     | backslash \<Rightarrow> Some (stateBackslash q c)
     | hex \<Rightarrow> stateHex q c)"

text \<open>The loop \<^verbatim>\<open>for _, c := range s { q.next(c) }\<close> over the runes of the input.\<close>

fun feed :: "quoter \<Rightarrow> nat list \<Rightarrow> quoter option" where
  "feed q [] = Some q"
| "feed q (c # cs) = (case nextq q c of None \<Rightarrow> None | Some q1 \<Rightarrow> feed q1 cs)"

text \<open>
  The quoter that \<^verbatim>\<open>Split\<close> sets up before the loop. A nil \<^verbatim>\<open>qopt\<close> is \<open>None\<close>, and
  \<^verbatim>\<open>opt\<close> is then the zero value of \<^verbatim>\<open>Options\<close>.
\<close>

definition zeroOptions :: Options where
  "zeroOptions = \<lparr>FancyBackslash = False, OnlySpaceIsSpace = False\<rparr>"

definition optionsOf :: "Options option \<Rightarrow> Options" where
  "optionsOf qopt = (case qopt of None \<Rightarrow> zeroOptions | Some o1 \<Rightarrow> o1)"

definition initq :: "Options option \<Rightarrow> quoter" where
  "initq qopt =
    (let opt = optionsOf qopt
     in \<lparr>buf = [], states = [normal], currentFunc = normal, partial = False,
         isspace = (if OnlySpaceIsSpace opt then isExactSpace else unicode_IsSpace),
         backslashFn = (if FancyBackslash opt then fancyBackslashF else simpleBackslashF),
         parseHex = 0, hexValue = 0, indexes = [], err = None\<rparr>)"

text \<open>
  The switch on \<^verbatim>\<open>q.states[len(q.states)-1]\<close> after the loop. Indexing an empty slice
  panics: \<open>None\<close>. The \<^verbatim>\<open>hex\<close> case has an empty body.
\<close>

definition atEnd :: "quoter \<Rightarrow> quoter option" where
  "atEnd q =
    (if states q = [] then None
     else Some (case last (states q) of
                  quoted \<Rightarrow> q\<lparr>err := Some MismatchedQuote\<rparr>
                | backslash \<Rightarrow> (buf_WriteRune q 0x5C)\<lparr>err := Some IncompleteBackslash\<rparr>
                | hex \<Rightarrow> q
                | normal \<Rightarrow> q))"

text \<open>
  The loop that cuts \<^verbatim>\<open>bufStr[prev:next]\<close> for each index. A slice expression with
  \<^verbatim>\<open>prev > next\<close> or \<^verbatim>\<open>next > len(bufStr)\<close> panics: \<open>None\<close>.
\<close>

fun cutWords :: "gostring \<Rightarrow> nat \<Rightarrow> nat list \<Rightarrow> gostring list option" where
  "cutWords bufStr prev [] = Some []"
| "cutWords bufStr prev (nxt # rest) =
    (if prev \<le> nxt \<and> nxt \<le> length bufStr
     then (case cutWords bufStr nxt rest of
             None \<Rightarrow> None
           | Some ws \<Rightarrow> Some (take (nxt - prev) (drop prev bufStr) # ws))
     else None)"

text \<open>What \<^verbatim>\<open>Split\<close> does with the quoter once the loop is over.\<close>

definition finish :: "quoter \<Rightarrow> (gostring list \<times> error) option" where
  "finish q =
    (case atEnd q of
       None \<Rightarrow> None
     | Some q1 \<Rightarrow>
         (let q2 = newWord q1
          in case cutWords (buf q2) 0 (indexes q2) of
               None \<Rightarrow> None
             | Some ws \<Rightarrow> Some (ws, err q2)))"

definition Split :: "gostring \<Rightarrow> Options option \<Rightarrow> (gostring list \<times> error) option" where
  "Split s qopt =
    (case feed (initq qopt) (range_runes s) of
       None \<Rightarrow> None
     | Some q \<Rightarrow> finish q)"

section \<open>Predicates on the quoter\<close>

text \<open>The two configurations with one option set.\<close>

definition fancyOptions :: "Options option" where
  "fancyOptions = Some \<lparr>FancyBackslash = True, OnlySpaceIsSpace = False\<rparr>"

definition onlySpaceOptions :: "Options option" where
  "onlySpaceOptions = Some \<lparr>FancyBackslash = False, OnlySpaceIsSpace = True\<rparr>"

text \<open>The characters that have a case of their own in the switch of \<^verbatim>\<open>fancyBackslash\<close>.\<close>

definition knownEscape :: "nat \<Rightarrow> bool" where
  "knownEscape c =
    (c \<in> {rn CHR ''x'', rn CHR ''u'', rn CHR ''U'', rn CHR ''a'', rn CHR ''b'', rn CHR ''f'',
           rn CHR ''n'', rn CHR ''r'', rn CHR ''t'', rn CHR ''v'', rn (CHR 0x5C), rn (CHR 0x22),
           rn (CHR 0x27)})"

text \<open>The recorded indexes never decrease and lie inside the buffer.\<close>

definition idxOK :: "quoter \<Rightarrow> bool" where
  "idxOK q = (sorted (indexes q) \<and> (\<forall>i \<in> set (indexes q). i \<le> length (buf q)))"

text \<open>The stack of states is not empty and \<^verbatim>\<open>normal\<close> is at its bottom.\<close>

definition bottomNormal :: "quoter \<Rightarrow> bool" where
  "bottomNormal q = (states q \<noteq> [] \<and> hd (states q) = normal)"

text \<open>
  The stacks that a run of \<^verbatim>\<open>Split\<close> goes through, and what holds of the quoter between
  two runes: \<^verbatim>\<open>currentFunc\<close> is the function of the top state, and a word is in progress
  whenever the stack is deeper than one.
\<close>

definition validStacks :: "state list list" where
  "validStacks =
    [[normal], [normal, quoted], [normal, backslash], [normal, hex],
     [normal, quoted, backslash], [normal, quoted, hex]]"

definition wf :: "quoter \<Rightarrow> bool" where
  "wf q = (states q \<in> set validStacks \<and> currentFunc q = last (states q)
           \<and> (1 < length (states q) \<longrightarrow> partial q))"

text \<open>
  A property of the quoter that every assignment and every helper the state functions
  are made of keeps.
\<close>

definition kept :: "(quoter \<Rightarrow> bool) \<Rightarrow> bool" where
  "kept P =
    ((\<forall>q s. P q \<longrightarrow> P (push q s)) \<and> (\<forall>q. P q \<longrightarrow> P (pop q))
     \<and> (\<forall>q. P q \<longrightarrow> P (newWord q)) \<and> (\<forall>q r. P q \<longrightarrow> P (buf_WriteRune q r))
     \<and> (\<forall>q b. P q \<longrightarrow> P (q\<lparr>partial := b\<rparr>)) \<and> (\<forall>q v. P q \<longrightarrow> P (q\<lparr>hexValue := v\<rparr>))
     \<and> (\<forall>q n. P q \<longrightarrow> P (q\<lparr>parseHex := n\<rparr>)) \<and> (\<forall>q e. P q \<longrightarrow> P (q\<lparr>err := e\<rparr>)))"

section \<open>A property that every primitive keeps is kept by every step\<close>

lemma stateNormal_keeps: "kept P \<Longrightarrow> P q \<Longrightarrow> P (stateNormal q c)"
  by (simp add: stateNormal_def kept_def)

lemma stateQuoted_keeps: "kept P \<Longrightarrow> P q \<Longrightarrow> P (stateQuoted q c)"
  by (simp add: stateQuoted_def kept_def)

lemma stateBackslash_keeps: "kept P \<Longrightarrow> P q \<Longrightarrow> P (stateBackslash q c)"
  by (simp add: stateBackslash_def simpleBackslash_def fancyBackslash_def Let_def kept_def
      split: backslashFunc.split)

lemma stateHex_keeps:
  assumes k: "kept P" and s: "stateHex q c = Some q'" and p: "P q"
  shows "P q'"
proof -
  have "P q \<longrightarrow> P q'"
  proof (rule stateHex.raw_induct [where P = "\<lambda>q c y. P q \<longrightarrow> P y", OF _ s], goal_cases)
    case (1 rec q c y)
    note IH = 1(1) and body = 1(2)
    show ?case
    proof (cases "c < 128 \<and> hexDigits ! c \<noteq> - 1")
      case True
      let ?q2 = "q\<lparr>hexValue := hexValue q * 16 + of_int (hexDigits ! c),
                   parseHex := parseHex q - 1\<rparr>"
      have q2: "P q \<longrightarrow> P ?q2" using k by (simp add: kept_def)
      have "y = pop (buf_WriteRune ?q2 (hexValue ?q2)) \<or> y = ?q2"
        using body True by (simp add: Let_def split: if_splits)
      then show ?thesis using q2 k by (auto simp: kept_def)
    next
      case False
      let ?q1 = "pop (buf_WriteRune q (hexValue q))"
      have q1: "P q \<longrightarrow> P ?q1" using k by (simp add: kept_def)
      have "y = stateNormal ?q1 c \<or> y = stateQuoted ?q1 c \<or> y = stateBackslash ?q1 c
            \<or> rec ?q1 c = Some y"
        using body False by (simp add: Let_def split: if_splits)
      then show ?thesis
        using q1 IH [of ?q1 c y] stateNormal_keeps [OF k, of ?q1 c]
          stateQuoted_keeps [OF k, of ?q1 c] stateBackslash_keeps [OF k, of ?q1 c]
        by blast
    qed
  qed
  then show ?thesis using p by simp
qed

lemma nextq_keeps:
  assumes k: "kept P" and step: "nextq q c = Some q'" and P: "P q"
  shows "P q'"
proof (cases "currentFunc q")
  case normal
  then show ?thesis using step stateNormal_keeps [OF k P] by (auto simp: nextq_def)
next
  case quoted
  then show ?thesis using step stateQuoted_keeps [OF k P] by (auto simp: nextq_def)
next
  case backslash
  then show ?thesis using step stateBackslash_keeps [OF k P] by (auto simp: nextq_def)
next
  case hex
  then have "stateHex q c = Some q'" using step by (simp add: nextq_def)
  then show ?thesis using stateHex_keeps [OF k _ P] by blast
qed

lemma feed_keeps:
  assumes k: "kept P"
  shows "feed q cs = Some q' \<Longrightarrow> P q \<Longrightarrow> P q'"
proof (induction cs arbitrary: q)
  case Nil
  then show ?case by simp
next
  case (Cons c cs)
  from Cons.prems(1) obtain q1 where q1: "nextq q c = Some q1" and rest: "feed q1 cs = Some q'"
    by (auto split: option.splits)
  have "P q1" using nextq_keeps [OF k q1 Cons.prems(2)] .
  then show ?case using Cons.IH rest by blast
qed

lemma kept_idxOK: "kept idxOK"
  by (auto simp: kept_def idxOK_def push_def pop_def newWord_def buf_WriteRune_def WriteRune_def
      Let_def sorted_append)

lemma kept_bottomNormal: "kept bottomNormal"
  by (auto simp: kept_def bottomNormal_def push_def pop_def newWord_def buf_WriteRune_def Let_def
      butlast_conv_take)

lemma kept_config: "kept (\<lambda>q. isspace q = f \<and> backslashFn q = g)"
  by (auto simp: kept_def push_def pop_def newWord_def buf_WriteRune_def Let_def)

lemma wf_cases:
  assumes "wf q"
  obtains "states q = [normal]" "currentFunc q = normal"
  | "states q = [normal, quoted]" "currentFunc q = quoted" "partial q"
  | "states q = [normal, backslash]" "currentFunc q = backslash" "partial q"
  | "states q = [normal, hex]" "currentFunc q = hex" "partial q"
  | "states q = [normal, quoted, backslash]" "currentFunc q = backslash" "partial q"
  | "states q = [normal, quoted, hex]" "currentFunc q = hex" "partial q"
  using assms by (auto simp: wf_def validStacks_def)

lemma wf_stateNormal:
  assumes "states q = [normal]" and "currentFunc q = normal"
  shows "wf (stateNormal q c)"
  using assms
  by (simp add: wf_def validStacks_def stateNormal_def push_def newWord_def buf_WriteRune_def)

lemma wf_stateQuoted:
  assumes "states q = [normal, quoted]" and "currentFunc q = quoted" and "partial q"
  shows "wf (stateQuoted q c)"
  using assms
  by (simp add: wf_def validStacks_def stateQuoted_def push_def pop_def buf_WriteRune_def Let_def)

lemma wf_stateBackslash:
  assumes "states q0 = [normal, backslash] \<or> states q0 = [normal, quoted, backslash]"
    and "partial q0"
  shows "wf (stateBackslash q0 c)"
proof -
  let ?q = "pop q0"
  have b: "(states ?q = [normal] \<or> states ?q = [normal, quoted])
           \<and> currentFunc ?q = last (states ?q) \<and> partial ?q"
    using assms by (auto simp: pop_def Let_def)
  have 1: "wf (push (?q\<lparr>hexValue := v, parseHex := n\<rparr>) hex)" for v n
    using b by (auto simp: wf_def validStacks_def push_def Let_def)
  have 2: "wf (buf_WriteRune ?q r)" for r
    using b by (auto simp: wf_def validStacks_def buf_WriteRune_def)
  have 3: "wf (buf_WriteRune (?q\<lparr>err := e\<rparr>) r)" for e r
    using b by (auto simp: wf_def validStacks_def buf_WriteRune_def)
  have 4: "wf (pop (buf_WriteRune q0 r))" for r
    using assms by (auto simp: wf_def validStacks_def pop_def buf_WriteRune_def Let_def)
  show ?thesis
    by (simp add: stateBackslash_def simpleBackslash_def fancyBackslash_def Let_def 1 2 3 4
        split: backslashFunc.split)
qed

lemma stateHex_digit:
  "c < 128 \<Longrightarrow> hexDigits ! c \<noteq> - 1 \<Longrightarrow>
   stateHex q c =
     Some (let q2 = q\<lparr>hexValue := hexValue q * 16 + of_int (hexDigits ! c),
                      parseHex := parseHex q - 1\<rparr>
           in if parseHex q2 = 0 then pop (buf_WriteRune q2 (hexValue q2)) else q2)"
  by (subst stateHex.simps) (simp add: Let_def)

lemma stateHex_other:
  assumes "\<not> (c < 128 \<and> hexDigits ! c \<noteq> - 1)"
    and "states q = [normal, hex] \<or> states q = [normal, quoted, hex]"
  shows "stateHex q c =
     Some (let q1 = pop (buf_WriteRune q (hexValue q))
           in if currentFunc q1 = normal then stateNormal q1 c else stateQuoted q1 c)"
  using assms
  by (subst stateHex.simps) (auto simp: Let_def pop_def buf_WriteRune_def)

lemma wf_stateHex:
  assumes "states q = [normal, hex] \<or> states q = [normal, quoted, hex]" and "partial q"
    and "currentFunc q = hex"
  shows "\<exists>q'. stateHex q c = Some q' \<and> wf q'"
proof (cases "c < 128 \<and> hexDigits ! c \<noteq> - 1")
  case True
  then show ?thesis
    using assms
    by (auto simp: stateHex_digit wf_def validStacks_def pop_def buf_WriteRune_def Let_def)
next
  case False
  let ?q1 = "pop (buf_WriteRune q (hexValue q))"
  have "states ?q1 = [normal] \<and> currentFunc ?q1 = normal
        \<or> states ?q1 = [normal, quoted] \<and> currentFunc ?q1 = quoted \<and> partial ?q1"
    using assms by (auto simp: pop_def buf_WriteRune_def Let_def)
  then have "wf (if currentFunc ?q1 = normal then stateNormal ?q1 c else stateQuoted ?q1 c)"
    using wf_stateNormal [of ?q1 c] wf_stateQuoted [of ?q1 c] by auto
  then show ?thesis
    using stateHex_other [OF False assms(1)] by (simp add: Let_def)
qed

lemma wf_step:
  assumes "wf q"
  shows "\<exists>q'. nextq q c = Some q' \<and> wf q'"
  using assms
proof (cases rule: wf_cases)
  case 1
  then show ?thesis by (simp add: nextq_def wf_stateNormal)
next
  case 2
  then show ?thesis by (simp add: nextq_def wf_stateQuoted)
next
  case 3
  then show ?thesis by (simp add: nextq_def wf_stateBackslash)
next
  case 4
  then show ?thesis using wf_stateHex [of q c] by (simp add: nextq_def)
next
  case 5
  then show ?thesis by (simp add: nextq_def wf_stateBackslash)
next
  case 6
  then show ?thesis using wf_stateHex [of q c] by (simp add: nextq_def)
qed

lemma wf_initq: "wf (initq qopt)"
  by (simp add: wf_def validStacks_def initq_def Let_def)

lemma wf_feed: "wf q \<Longrightarrow> \<exists>q'. feed q cs = Some q' \<and> wf q'"
proof (induction cs arbitrary: q)
  case Nil
  then show ?case by simp
next
  case (Cons c cs)
  then obtain q1 where "nextq q c = Some q1" "wf q1" using wf_step by blast
  then show ?case using Cons.IH by simp
qed

lemma cut_total:
  "sorted (p # xs) \<Longrightarrow> \<forall>i \<in> set xs. i \<le> length b \<Longrightarrow> \<exists>ws. cutWords b p xs = Some ws"
proof (induction xs arbitrary: p)
  case Nil
  then show ?case by simp
next
  case (Cons x xs)
  have s: "sorted (x # xs)" using Cons.prems(1) by simp
  have b: "\<forall>i \<in> set xs. i \<le> length b" using Cons.prems(2) by simp
  from Cons.IH [OF s b] obtain ws where "cutWords b x xs = Some ws" by blast
  then show ?case using Cons.prems by simp
qed

lemma cut_snoc:
  "cutWords b p xs = Some ws \<Longrightarrow> last (p # xs) \<le> n \<Longrightarrow> n \<le> length b \<Longrightarrow>
   cutWords b p (xs @ [n]) = Some (ws @ [take (n - last (p # xs)) (drop (last (p # xs)) b)])"
proof (induction xs arbitrary: p ws)
  case Nil
  then show ?case by simp
next
  case (Cons x xs)
  then show ?case by (auto split: if_splits option.splits)
qed

lemma idxOK_initq: "idxOK (initq qopt)"
  by (simp add: idxOK_def initq_def Let_def)

lemma feed_initq:
  "\<exists>q. feed (initq qopt) cs = Some q \<and> wf q \<and> idxOK q"
proof -
  obtain q where q: "feed (initq qopt) cs = Some q" "wf q"
    using wf_feed [OF wf_initq] by blast
  have "idxOK q" using feed_keeps [OF kept_idxOK q(1) idxOK_initq] .
  then show ?thesis using q by blast
qed

lemma atEnd_wf:
  assumes "wf q"
  shows "atEnd q =
    Some (case last (states q) of
            quoted \<Rightarrow> q\<lparr>err := Some MismatchedQuote\<rparr>
          | backslash \<Rightarrow> (buf_WriteRune q 0x5C)\<lparr>err := Some IncompleteBackslash\<rparr>
          | hex \<Rightarrow> q
          | normal \<Rightarrow> q)"
  using assms by (auto simp: atEnd_def wf_def validStacks_def)

lemma atEnd_idxOK: "atEnd q = Some q1 \<Longrightarrow> idxOK q \<Longrightarrow> idxOK q1"
  using kept_idxOK
  by (auto simp: atEnd_def kept_def split: if_splits state.splits)

lemma atEnd_err:
  "atEnd q = Some q1 \<Longrightarrow>
   err q1 = (case last (states q) of
               quoted \<Rightarrow> Some MismatchedQuote
             | backslash \<Rightarrow> Some IncompleteBackslash
             | hex \<Rightarrow> err q
             | normal \<Rightarrow> err q)"
  by (auto simp: atEnd_def buf_WriteRune_def split: if_splits state.splits)

lemma newWord_err: "err (newWord q) = err q"
  by (simp add: newWord_def)

lemma finish_wf:
  assumes "wf q" and "idxOK q"
  shows "\<exists>ws. finish q =
    Some (ws, case last (states q) of
                quoted \<Rightarrow> Some MismatchedQuote
              | backslash \<Rightarrow> Some IncompleteBackslash
              | hex \<Rightarrow> err q
              | normal \<Rightarrow> err q)"
proof -
  obtain q1 where q1: "atEnd q = Some q1" using atEnd_wf [OF assms(1)] by simp
  have "idxOK (newWord q1)"
    using atEnd_idxOK [OF q1 assms(2)] kept_idxOK by (simp add: kept_def)
  then have "sorted (0 # indexes (newWord q1))"
    and "\<forall>i \<in> set (indexes (newWord q1)). i \<le> length (buf (newWord q1))"
    by (simp_all add: idxOK_def)
  then obtain ws where "cutWords (buf (newWord q1)) 0 (indexes (newWord q1)) = Some ws"
    using cut_total by blast
  then show ?thesis
    using q1 atEnd_err [OF q1] by (simp add: finish_def Let_def newWord_err)
qed

lemma push_fields:
  "buf (push q s) = buf q" "partial (push q s) = partial q" "isspace (push q s) = isspace q"
  "backslashFn (push q s) = backslashFn q" "parseHex (push q s) = parseHex q"
  "hexValue (push q s) = hexValue q" "indexes (push q s) = indexes q" "err (push q s) = err q"
  "currentFunc (push q s) = s"
  by (simp_all add: push_def Let_def)

lemma pop_fields:
  "buf (pop q) = buf q" "partial (pop q) = partial q" "isspace (pop q) = isspace q"
  "backslashFn (pop q) = backslashFn q" "parseHex (pop q) = parseHex q"
  "hexValue (pop q) = hexValue q" "indexes (pop q) = indexes q" "err (pop q) = err q"
  by (simp_all add: pop_def Let_def)

lemma buf_WriteRune_fields:
  "buf (buf_WriteRune q r) = buf q @ AppendRune r" "states (buf_WriteRune q r) = states q"
  "currentFunc (buf_WriteRune q r) = currentFunc q"
  "partial (buf_WriteRune q r) = partial q" "isspace (buf_WriteRune q r) = isspace q"
  "backslashFn (buf_WriteRune q r) = backslashFn q" "parseHex (buf_WriteRune q r) = parseHex q"
  "hexValue (buf_WriteRune q r) = hexValue q" "indexes (buf_WriteRune q r) = indexes q"
  "err (buf_WriteRune q r) = err q"
  by (simp_all add: buf_WriteRune_def WriteRune_def)

lemma newWord_fields:
  "buf (newWord q) = buf q" "states (newWord q) = states q"
  "currentFunc (newWord q) = currentFunc q" "partial (newWord q) = False"
  "isspace (newWord q) = isspace q" "backslashFn (newWord q) = backslashFn q"
  "parseHex (newWord q) = parseHex q" "hexValue (newWord q) = hexValue q"
  "err (newWord q) = err q"
  "indexes (newWord q) = (if partial q then indexes q @ [length (buf q)] else indexes q)"
  by (simp_all add: newWord_def)

lemma fancyBackslash_err:
  "err (fancyBackslash q c) = (if knownEscape c then err q else Some (invalidEscape c))"
  by (simp add: fancyBackslash_def Let_def knownEscape_def rn_def push_fields pop_fields
      buf_WriteRune_fields)

lemma stateBackslash_err:
  "err (stateBackslash q c) =
     (if backslashFn q = fancyBackslashF \<and> \<not> knownEscape c then Some (invalidEscape c) else err q)"
  by (simp add: stateBackslash_def simpleBackslash_def fancyBackslash_err pop_fields
      buf_WriteRune_fields split: backslashFunc.split)

lemma stateNormal_err: "err (stateNormal q c) = err q"
  by (simp add: stateNormal_def push_fields newWord_fields buf_WriteRune_fields)

lemma stateQuoted_err: "err (stateQuoted q c) = err q"
  by (simp add: stateQuoted_def push_fields pop_fields buf_WriteRune_fields)

lemma feed_config:
  "feed (initq qopt) cs = Some q \<Longrightarrow>
   isspace q = isspace (initq qopt) \<and> backslashFn q = backslashFn (initq qopt)"
  using feed_keeps [OF kept_config, of "initq qopt" cs q "isspace (initq qopt)" "backslashFn (initq qopt)"]
  by simp

lemma feed_wf: "feed (initq qopt) cs = Some q \<Longrightarrow> wf q \<and> idxOK q"
  using feed_initq [of qopt cs] by auto

lemma nextq_err:
  assumes "wf q"
  shows "\<exists>q'. nextq q c = Some q' \<and>
     err q' = (if currentFunc q = backslash \<and> backslashFn q = fancyBackslashF \<and> \<not> knownEscape c
               then Some (invalidEscape c) else err q)"
proof (cases "currentFunc q")
  case normal
  then show ?thesis by (simp add: nextq_def stateNormal_err)
next
  case quoted
  then show ?thesis by (simp add: nextq_def stateQuoted_err)
next
  case backslash
  then show ?thesis by (simp add: nextq_def stateBackslash_err)
next
  case hex
  then have st: "states q = [normal, hex] \<or> states q = [normal, quoted, hex]"
    using assms by (auto simp: wf_def validStacks_def)
  show ?thesis
  proof (cases "c < 128 \<and> hexDigits ! c \<noteq> - 1")
    case True
    then show ?thesis
      using hex by (simp add: nextq_def stateHex_digit Let_def pop_fields buf_WriteRune_fields)
  next
    case False
    show ?thesis
      using hex stateHex_other [OF False st]
      by (simp add: nextq_def Let_def stateNormal_err stateQuoted_err pop_fields
          buf_WriteRune_fields)
  qed
qed

section \<open>C1: which error Split returns\<close>

text \<open>
  C1 (as stated, refuted). The claim says that the first error of a run is the one that
  \<^verbatim>\<open>Split\<close> returns. With \<^verbatim>\<open>FancyBackslash\<close> set, the input made of a backslash and
  \<^verbatim>\<open>q\<close> records the error for the invalid escape character \<^verbatim>\<open>q\<close>. When a double quote
  follows, the switch after the loop assigns "mismatched quote" over that error; when a
  backslash and \<^verbatim>\<open>z\<close> follow, the error for \<^verbatim>\<open>z\<close> is assigned over the one for \<^verbatim>\<open>q\<close>.
\<close>

theorem first_error_is_overwritten:
  "map_option err (feed (initq fancyOptions) (range_runes (bytes ([CHR 0x5C] @ ''q''))))
     = Some (Some (invalidEscape (rn CHR ''q'')))
   \<and> Split (bytes ([CHR 0x5C] @ ''q'' @ [CHR 0x22])) fancyOptions
     = Some ([bytes ''q''], Some MismatchedQuote)
   \<and> Split (bytes ([CHR 0x5C] @ ''q'' @ [CHR 0x5C] @ ''z'')) fancyOptions
     = Some ([bytes ''qz''], Some (invalidEscape (rn CHR ''z'')))
   \<and> invalidEscape (rn CHR ''q'') \<noteq> MismatchedQuote
   \<and> invalidEscape (rn CHR ''q'') \<noteq> invalidEscape (rn CHR ''z'')"
  by code_simp

text \<open>
  C1 (amended). Every assignment to \<^verbatim>\<open>q.err\<close> is unconditional, so the last error of a run
  is the one returned. For every input and configuration \<^verbatim>\<open>Split\<close> returns, and its error
  is "mismatched quote" when the run ends with \<^verbatim>\<open>quoted\<close> on top of the stack, "incomplete
  backslash sequence" when it ends with \<^verbatim>\<open>backslash\<close> on top, and otherwise the error held
  when the loop ended. During the loop, a rune that \<^verbatim>\<open>fancyBackslash\<close> has no case for
  replaces whatever error was held by its own, and every other step leaves the error as
  it was.
\<close>

theorem last_error_wins:
  "(\<exists>q ws. feed (initq qopt) (range_runes s) = Some q \<and>
      Split s qopt =
        Some (ws, case last (states q) of
                    quoted \<Rightarrow> Some MismatchedQuote
                  | backslash \<Rightarrow> Some IncompleteBackslash
                  | hex \<Rightarrow> err q
                  | normal \<Rightarrow> err q))
   \<and> (feed (initq qopt) cs = Some q0 \<longrightarrow>
       (\<exists>q1. nextq q0 c = Some q1 \<and>
          err q1 = (if currentFunc q0 = backslash \<and> backslashFn q0 = fancyBackslashF
                       \<and> \<not> knownEscape c
                    then Some (invalidEscape c) else err q0)))"
proof -
  obtain q where q: "feed (initq qopt) (range_runes s) = Some q" "wf q" "idxOK q"
    using feed_initq by blast
  obtain ws where "finish q =
      Some (ws, case last (states q) of
                  quoted \<Rightarrow> Some MismatchedQuote
                | backslash \<Rightarrow> Some IncompleteBackslash
                | hex \<Rightarrow> err q
                | normal \<Rightarrow> err q)"
    using finish_wf [OF q(2,3)] by blast
  then have a: "\<exists>q ws. feed (initq qopt) (range_runes s) = Some q \<and>
      Split s qopt =
        Some (ws, case last (states q) of
                    quoted \<Rightarrow> Some MismatchedQuote
                  | backslash \<Rightarrow> Some IncompleteBackslash
                  | hex \<Rightarrow> err q
                  | normal \<Rightarrow> err q)"
    using q(1) by (simp add: Split_def)
  show ?thesis using a nextq_err feed_wf by blast
qed

text \<open>
  C1, witness: with \<^verbatim>\<open>FancyBackslash\<close> set, after the runes backslash, \<^verbatim>\<open>q\<close>, backslash
  the error for \<^verbatim>\<open>q\<close> is held and \<^verbatim>\<open>backslash\<close> is the current state; the rune \<^verbatim>\<open>z\<close>
  replaces it by the error for \<^verbatim>\<open>z\<close>.
\<close>

theorem last_error_wins_witness:
  "\<exists>q0 q1. feed (initq fancyOptions) [92, 113, 92] = Some q0
      \<and> err q0 = Some (invalidEscape 113)
      \<and> nextq q0 122 = Some q1 \<and> err q1 = Some (invalidEscape 122)"
proof -
  obtain q0 where q0: "feed (initq fancyOptions) [92, 113, 92] = Some q0"
    using feed_initq by blast
  have "map_option err (feed (initq fancyOptions) [92, 113, 92]) = Some (Some (invalidEscape 113))"
    and "map_option currentFunc (feed (initq fancyOptions) [92, 113, 92]) = Some backslash"
    and "map_option backslashFn (feed (initq fancyOptions) [92, 113, 92]) = Some fancyBackslashF"
    by code_simp+
  then have h: "err q0 = Some (invalidEscape 113)" "currentFunc q0 = backslash"
    "backslashFn q0 = fancyBackslashF"
    using q0 by simp_all
  have k: "\<not> knownEscape 122" by code_simp
  show ?thesis
    using last_error_wins [of fancyOptions "[]" "[92, 113, 92]" q0 122] q0 h k by auto
qed

section \<open>C2: end of input inside a hex escape\<close>

text \<open>
  C2 (the code departs from the claim). The claim says that the value accumulated by a
  hex escape that the end of the input cuts short is appended to the buffer before the
  last word is closed. In the switch after the loop the case for \<^verbatim>\<open>hex\<close> has an empty
  body, so the value is dropped: with \<^verbatim>\<open>FancyBackslash\<close> set, the input made of a backslash,
  \<^verbatim>\<open>x\<close> and \<^verbatim>\<open>6\<close> gives one empty word and no error, not the word holding U+0006.
\<close>

theorem hex_value_dropped_at_end:
  "Split (bytes ([CHR 0x5C] @ ''x6'')) fancyOptions = Some ([[]], None)
   \<and> map_option hexValue (feed (initq fancyOptions) (range_runes (bytes ([CHR 0x5C] @ ''x6''))))
     = Some 6"
  by code_simp

section \<open>C3: the recorded indexes\<close>

text \<open>
  C3 (as stated, refuted). The claim says that the recorded indexes are strictly
  increasing. A pair of double quotes starts a word and appends nothing, so the input
  of two such pairs with a space after each records the index 0 twice; \<^verbatim>\<open>Split\<close> returns
  two empty words for it.
\<close>

theorem equal_boundaries_recorded:
  "map_option indexes
     (feed (initq None) (range_runes (bytes ([CHR 0x22, CHR 0x22] @ '' '' @ [CHR 0x22, CHR 0x22] @ '' ''))))
     = Some [0, 0]
   \<and> map_option (sorted_wrt (<) \<circ> indexes)
     (feed (initq None) (range_runes (bytes ([CHR 0x22, CHR 0x22] @ '' '' @ [CHR 0x22, CHR 0x22] @ '' ''))))
     = Some False
   \<and> Split (bytes ([CHR 0x22, CHR 0x22] @ '' '' @ [CHR 0x22, CHR 0x22] @ '' '')) None
     = Some ([[], []], None)"
  by code_simp

text \<open>
  C3 (amended). Throughout every run of \<^verbatim>\<open>Split\<close>, on every input and configuration, the
  recorded indexes never decrease (two consecutive ones are equal when the word between
  them is empty) and each is at most the length of the buffer: this holds after every
  prefix of the runes, and again after the switch and the call of \<^verbatim>\<open>newWord\<close> that follow
  the loop. An index is recorded by \<^verbatim>\<open>newWord\<close> only, when a word is in progress, and is
  the length of the buffer at that time.
\<close>

theorem boundaries_never_decrease:
  "(\<exists>q q1. feed (initq qopt) cs = Some q
       \<and> sorted (indexes q) \<and> (\<forall>i \<in> set (indexes q). i \<le> length (buf q))
       \<and> atEnd q = Some q1
       \<and> sorted (indexes (newWord q1))
       \<and> (\<forall>i \<in> set (indexes (newWord q1)). i \<le> length (buf (newWord q1))))
   \<and> indexes (newWord q0) = (if partial q0 then indexes q0 @ [length (buf q0)] else indexes q0)"
proof -
  obtain q where q: "feed (initq qopt) cs = Some q" "wf q" "idxOK q"
    using feed_initq by blast
  obtain q1 where q1: "atEnd q = Some q1" using atEnd_wf [OF q(2)] by simp
  have "idxOK (newWord q1)"
    using atEnd_idxOK [OF q1 q(3)] kept_idxOK by (simp add: kept_def)
  then show ?thesis
    using q q1 by (auto simp: idxOK_def newWord_fields)
qed

text \<open>
  C3, witness: after the runes of \<^verbatim>\<open>a b\<close> followed by a space the indexes are 1 and 2 and
  the buffer holds two bytes.
\<close>

theorem boundaries_never_decrease_witness:
  "\<exists>q. feed (initq None) [97, 32, 98, 32] = Some q \<and> indexes q = [1, 2] \<and> length (buf q) = 2
       \<and> sorted (indexes q) \<and> (\<forall>i \<in> set (indexes q). i \<le> length (buf q))"
proof -
  from boundaries_never_decrease [of None "[97, 32, 98, 32]"]
  obtain q where q: "feed (initq None) [97, 32, 98, 32] = Some q" "sorted (indexes q)"
    "\<forall>i \<in> set (indexes q). i \<le> length (buf q)"
    by blast
  have "map_option indexes (feed (initq None) [97, 32, 98, 32]) = Some [1, 2]"
    and "map_option (length \<circ> buf) (feed (initq None) [97, 32, 98, 32]) = Some 2"
    by code_simp+
  then have "indexes q = [1, 2]" "length (buf q) = 2" using q(1) by simp_all
  then show ?thesis using q by blast
qed

section \<open>C6: the stack of states\<close>

lemma pop_bottom:
  "1 \<le> length (states q) \<Longrightarrow> hd (states q) = normal \<Longrightarrow>
   1 \<le> length (states (pop q)) \<and> hd (states (pop q)) = normal"
  using kept_bottomNormal by (auto simp: kept_def bottomNormal_def Suc_le_eq)

lemma push_bottom:
  "1 \<le> length (states q) \<Longrightarrow> hd (states q) = normal \<Longrightarrow>
   1 \<le> length (states (push q s)) \<and> hd (states (push q s)) = normal"
  using kept_bottomNormal by (auto simp: kept_def bottomNormal_def Suc_le_eq)

text \<open>
  C6. For every input and configuration the loop returns, and after every prefix of the
  runes the stack of states has depth at least 1 with \<^verbatim>\<open>normal\<close> at its bottom. The stack
  changes through \<^verbatim>\<open>push\<close> and \<^verbatim>\<open>pop\<close> only, and each of them keeps both facts, so they
  hold inside a step as well; \<^verbatim>\<open>pop\<close> on a stack of depth 1 changes nothing.
\<close>

theorem stack_bottom_is_normal:
  "(\<exists>q. feed (initq qopt) cs = Some q \<and> 1 \<le> length (states q) \<and> hd (states q) = normal)
   \<and> (length (states q0) = 1 \<longrightarrow> pop q0 = q0)
   \<and> (1 \<le> length (states q0) \<and> hd (states q0) = normal \<longrightarrow>
        1 \<le> length (states (pop q0)) \<and> hd (states (pop q0)) = normal
        \<and> 1 \<le> length (states (push q0 s)) \<and> hd (states (push q0 s)) = normal)"
proof -
  obtain q where q: "feed (initq qopt) cs = Some q" using feed_initq by blast
  have "bottomNormal (initq qopt)" by (simp add: bottomNormal_def initq_def Let_def)
  then have "bottomNormal q" using feed_keeps [OF kept_bottomNormal q] by simp
  then have a: "\<exists>q. feed (initq qopt) cs = Some q \<and> 1 \<le> length (states q) \<and> hd (states q) = normal"
    using q by (auto simp: bottomNormal_def Suc_le_eq)
  have b: "length (states q0) = 1 \<longrightarrow> pop q0 = q0" by (simp add: pop_def)
  show ?thesis using a b pop_bottom [of q0] push_bottom [of q0 s] by blast
qed

text \<open>
  C6, witness: the quoter that \<^verbatim>\<open>Split\<close> starts from has a stack of depth 1 with \<^verbatim>\<open>normal\<close>
  at its bottom, \<^verbatim>\<open>pop\<close> leaves it as it is and \<^verbatim>\<open>push\<close> keeps the bottom; after a double
  quote, a backslash and \<^verbatim>\<open>x\<close> the stack is still not empty and has \<^verbatim>\<open>normal\<close> at its bottom.
\<close>

theorem stack_bottom_is_normal_witness:
  "length (states (initq None)) = 1 \<and> hd (states (initq None)) = normal
   \<and> pop (initq None) = initq None
   \<and> 1 \<le> length (states (push (initq None) quoted))
   \<and> hd (states (push (initq None) quoted)) = normal
   \<and> (\<exists>q. feed (initq fancyOptions) [34, 92, 120] = Some q \<and> 1 \<le> length (states q)
         \<and> hd (states q) = normal)"
proof -
  have h: "length (states (initq None)) = 1" "hd (states (initq None)) = normal"
    by (simp_all add: initq_def Let_def)
  show ?thesis
    using h stack_bottom_is_normal [of fancyOptions "[34, 92, 120]" "initq None" quoted]
    by simp
qed

section \<open>C4 and C5: hex escapes\<close>

lemma pop_states:
  "states (pop q) = (if 1 < length (states q) then butlast (states q) else states q)"
  "currentFunc (pop q) = (if 1 < length (states q) then last (butlast (states q)) else currentFunc q)"
  by (simp_all add: pop_def Let_def)

lemma wf_hex:
  "wf q \<Longrightarrow> currentFunc q = hex \<Longrightarrow> states q = [normal, hex] \<or> states q = [normal, quoted, hex]"
  by (auto simp: wf_def validStacks_def)

lemma hex_digits_run:
  assumes "states q = [normal, hex] \<or> states q = [normal, quoted, hex]"
    and "currentFunc q = hex" and "ds \<noteq> []"
    and "list_all (\<lambda>d. d < 128 \<and> hexDigits ! d \<noteq> - 1) ds"
    and "parseHex q = int (length ds)"
  shows "\<exists>q'. feed q ds = Some q'
     \<and> buf q' = buf q @ AppendRune (foldl (\<lambda>v d. v * 16 + of_int (hexDigits ! d)) (hexValue q) ds)
     \<and> states q' = butlast (states q) \<and> currentFunc q' = last (states q')
     \<and> (currentFunc q' = normal \<or> currentFunc q' = quoted)"
  using assms
proof (induction ds arbitrary: q)
  case Nil
  then show ?case by simp
next
  case (Cons d ds)
  have dg: "d < 128" "hexDigits ! d \<noteq> - 1" using Cons.prems(4) by simp_all
  have n: "nextq q d = stateHex q d" using Cons.prems(2) by (simp add: nextq_def)
  show ?case
  proof (cases "ds = []")
    case True
    then have "parseHex q = 1" using Cons.prems(5) by simp
    then show ?thesis
      using True n Cons.prems(1)
      by (auto simp: stateHex_digit [OF dg] Let_def pop_states pop_fields buf_WriteRune_fields)
  next
    case False
    let ?q2 = "q\<lparr>hexValue := hexValue q * 16 + of_int (hexDigits ! d),
                 parseHex := parseHex q - 1\<rparr>"
    have "parseHex q - 1 \<noteq> 0" using False Cons.prems(5) by (cases ds) simp_all
    then have s: "nextq q d = Some ?q2" using n by (simp add: stateHex_digit [OF dg] Let_def)
    have "\<exists>q'. feed ?q2 ds = Some q'
       \<and> buf q' = buf ?q2 @ AppendRune (foldl (\<lambda>v d. v * 16 + of_int (hexDigits ! d)) (hexValue ?q2) ds)
       \<and> states q' = butlast (states ?q2) \<and> currentFunc q' = last (states q')
       \<and> (currentFunc q' = normal \<or> currentFunc q' = quoted)"
      using Cons.prems False by (intro Cons.IH) simp_all
    then show ?thesis using s by simp
  qed
qed

text \<open>
  C4. In a run of \<^verbatim>\<open>Split\<close>, when \<^verbatim>\<open>hex\<close> is the current state and the runes that follow
  are as many hex digits as \<^verbatim>\<open>parseHex\<close> still wants, the loop over them returns: the
  encoding of the accumulated value, with those digits folded in, is appended to the
  buffer, \<^verbatim>\<open>hex\<close> is removed from the stack and the state below it is current again, which
  is \<^verbatim>\<open>normal\<close> or \<^verbatim>\<open>quoted\<close> and never \<^verbatim>\<open>backslash\<close>. With \<^verbatim>\<open>FancyBackslash\<close> set, the input
  made of a backslash and \<^verbatim>\<open>x69x23\<close> gives the single word \<^verbatim>\<open>ix23\<close> and no error.
\<close>

theorem hex_escape_completes:
  "(feed (initq qopt) cs = Some q \<and> currentFunc q = hex \<and> ds \<noteq> []
      \<and> list_all (\<lambda>d. d < 128 \<and> hexDigits ! d \<noteq> - 1) ds \<and> parseHex q = int (length ds) \<longrightarrow>
      (\<exists>q'. feed q ds = Some q'
         \<and> buf q' = buf q
              @ AppendRune (foldl (\<lambda>v d. v * 16 + of_int (hexDigits ! d)) (hexValue q) ds)
         \<and> states q' = butlast (states q) \<and> currentFunc q' = last (states q')
         \<and> (currentFunc q' = normal \<or> currentFunc q' = quoted)))
   \<and> Split (bytes ([CHR 0x5C] @ ''x69x23'')) fancyOptions = Some ([bytes ''ix23''], None)"
proof -
  have ex: "Split (bytes ([CHR 0x5C] @ ''x69x23'')) fancyOptions = Some ([bytes ''ix23''], None)"
    by code_simp
  have "\<exists>q'. feed q ds = Some q'
         \<and> buf q' = buf q
              @ AppendRune (foldl (\<lambda>v d. v * 16 + of_int (hexDigits ! d)) (hexValue q) ds)
         \<and> states q' = butlast (states q) \<and> currentFunc q' = last (states q')
         \<and> (currentFunc q' = normal \<or> currentFunc q' = quoted)"
    if run: "feed (initq qopt) cs = Some q" and hx: "currentFunc q = hex" and ne: "ds \<noteq> []"
      and dg: "list_all (\<lambda>d. d < 128 \<and> hexDigits ! d \<noteq> - 1) ds"
      and n: "parseHex q = int (length ds)"
  proof -
    have st: "states q = [normal, hex] \<or> states q = [normal, quoted, hex]"
      using feed_wf [OF run] hx wf_hex by blast
    show ?thesis using hex_digits_run [OF st hx ne dg n] .
  qed
  then show ?thesis using ex by blast
qed

text \<open>
  C4, witness: with \<^verbatim>\<open>FancyBackslash\<close> set, after a double quote, a backslash and \<^verbatim>\<open>x\<close> the
  current state is \<^verbatim>\<open>hex\<close> with two digits wanted; the runes \<^verbatim>\<open>6\<close> and \<^verbatim>\<open>9\<close> append the byte
  0x69 and make \<^verbatim>\<open>quoted\<close> current again.
\<close>

theorem hex_escape_completes_witness:
  "\<exists>q q'. feed (initq fancyOptions) [34, 92, 120] = Some q \<and> currentFunc q = hex
      \<and> [54, 57] \<noteq> ([] :: nat list)
      \<and> list_all (\<lambda>d. d < 128 \<and> hexDigits ! d \<noteq> - 1) [54, 57]
      \<and> parseHex q = int (length [54 :: nat, 57])
      \<and> feed q [54, 57] = Some q' \<and> buf q' = [0x69] \<and> states q' = [normal, quoted]
      \<and> currentFunc q' = quoted"
proof -
  obtain q where q: "feed (initq fancyOptions) [34, 92, 120] = Some q"
    using feed_initq by blast
  have "map_option currentFunc (feed (initq fancyOptions) [34, 92, 120]) = Some hex"
    and "map_option parseHex (feed (initq fancyOptions) [34, 92, 120]) = Some 2"
    and "map_option buf (feed (initq fancyOptions) [34, 92, 120]) = Some []"
    and "map_option hexValue (feed (initq fancyOptions) [34, 92, 120]) = Some 0"
    and "map_option states (feed (initq fancyOptions) [34, 92, 120]) = Some [normal, quoted, hex]"
    by code_simp+
  then have h: "currentFunc q = hex" "parseHex q = 2" "buf q = []" "hexValue q = 0"
    "states q = [normal, quoted, hex]"
    using q by simp_all
  have d: "list_all (\<lambda>d. d < 128 \<and> hexDigits ! d \<noteq> - 1) [54, 57]"
    and e: "AppendRune (foldl (\<lambda>v d. v * 16 + of_int (hexDigits ! d)) 0 [54, 57]) = [0x69]"
    by code_simp+
  have "feed (initq fancyOptions) [34, 92, 120] = Some q \<and> currentFunc q = hex
      \<and> [54, 57] \<noteq> ([] :: nat list)
      \<and> list_all (\<lambda>d. d < 128 \<and> hexDigits ! d \<noteq> - 1) [54, 57]
      \<and> parseHex q = int (length [54 :: nat, 57])"
    using q h(1,2) d by simp
  with hex_escape_completes [of fancyOptions "[34, 92, 120]" q "[54, 57]"]
  obtain q' where r: "feed q [54, 57] = Some q'"
    "buf q' = buf q
       @ AppendRune (foldl (\<lambda>v d. v * 16 + of_int (hexDigits ! d)) (hexValue q) [54, 57])"
    "states q' = butlast (states q)" "currentFunc q' = last (states q')"
    by blast
  have f: "buf q' = [0x69]" "states q' = [normal, quoted]" "currentFunc q' = quoted"
    using r h e by simp_all
  have "feed (initq fancyOptions) [34, 92, 120] = Some q \<and> currentFunc q = hex
      \<and> [54, 57] \<noteq> ([] :: nat list)
      \<and> list_all (\<lambda>d. d < 128 \<and> hexDigits ! d \<noteq> - 1) [54, 57]
      \<and> parseHex q = int (length [54 :: nat, 57])
      \<and> feed q [54, 57] = Some q' \<and> buf q' = [0x69] \<and> states q' = [normal, quoted]
      \<and> currentFunc q' = quoted"
    using q h(1,2) d r(1) f by simp
  then show ?thesis by (intro exI)
qed

text \<open>
  C5. In a run of \<^verbatim>\<open>Split\<close>, when \<^verbatim>\<open>hex\<close> is the current state and the next rune is not a
  hex digit, the step returns: it appends the encoding of the value accumulated so far,
  removes \<^verbatim>\<open>hex\<close> from the stack, which makes \<^verbatim>\<open>normal\<close> or \<^verbatim>\<open>quoted\<close> current, and then does
  with the same rune what a step from that quoter does; the error is left as it was. With
  \<^verbatim>\<open>FancyBackslash\<close> set, a backslash and \<^verbatim>\<open>x69\<close> give the word \<^verbatim>\<open>i\<close>, and a backslash and
  \<^verbatim>\<open>xza\<close> give the single word made of the byte 0 followed by \<^verbatim>\<open>za\<close>, both with no error.
\<close>

theorem hex_escape_hands_rune_back:
  "(feed (initq qopt) cs = Some q \<and> currentFunc q = hex \<and> \<not> (c < 128 \<and> hexDigits ! c \<noteq> - 1) \<longrightarrow>
      (\<exists>q1 q'. q1 = pop (buf_WriteRune q (hexValue q))
         \<and> buf q1 = buf q @ AppendRune (hexValue q)
         \<and> states q1 = butlast (states q)
         \<and> (currentFunc q1 = normal \<or> currentFunc q1 = quoted)
         \<and> nextq q c = nextq q1 c \<and> nextq q c = Some q' \<and> err q' = err q))
   \<and> Split (bytes ([CHR 0x5C] @ ''x69'')) fancyOptions = Some ([bytes ''i''], None)
   \<and> Split (bytes ([CHR 0x5C] @ ''xza'')) fancyOptions = Some ([0 # bytes ''za''], None)"
proof -
  have ex: "Split (bytes ([CHR 0x5C] @ ''x69'')) fancyOptions = Some ([bytes ''i''], None)"
    "Split (bytes ([CHR 0x5C] @ ''xza'')) fancyOptions = Some ([0 # bytes ''za''], None)"
    by code_simp+
  have "\<exists>q1 q'. q1 = pop (buf_WriteRune q (hexValue q))
         \<and> buf q1 = buf q @ AppendRune (hexValue q)
         \<and> states q1 = butlast (states q)
         \<and> (currentFunc q1 = normal \<or> currentFunc q1 = quoted)
         \<and> nextq q c = nextq q1 c \<and> nextq q c = Some q' \<and> err q' = err q"
    if run: "feed (initq qopt) cs = Some q" and hx: "currentFunc q = hex"
      and nd: "\<not> (c < 128 \<and> hexDigits ! c \<noteq> - 1)"
  proof -
    let ?q1 = "pop (buf_WriteRune q (hexValue q))"
    have st: "states q = [normal, hex] \<or> states q = [normal, quoted, hex]"
      using feed_wf [OF run] hx wf_hex by blast
    have f: "buf ?q1 = buf q @ AppendRune (hexValue q)" "states ?q1 = butlast (states q)"
      "currentFunc ?q1 = normal \<or> currentFunc ?q1 = quoted" "err ?q1 = err q"
      using st by (auto simp: pop_states pop_fields buf_WriteRune_fields)
    have n: "nextq q c = stateHex q c" using hx by (simp add: nextq_def)
    have s: "stateHex q c = Some (if currentFunc ?q1 = normal then stateNormal ?q1 c
                                   else stateQuoted ?q1 c)"
      using stateHex_other [OF nd st] by (simp add: Let_def)
    have r: "nextq ?q1 c = Some (if currentFunc ?q1 = normal then stateNormal ?q1 c
                                  else stateQuoted ?q1 c)"
      using f(3) by (auto simp: nextq_def)
    have e: "err (if currentFunc ?q1 = normal then stateNormal ?q1 c else stateQuoted ?q1 c) = err q"
      using f(4) by (simp add: stateNormal_err stateQuoted_err)
    show ?thesis using f n s r e by simp
  qed
  then show ?thesis using ex by blast
qed

text \<open>
  C5, witness: with \<^verbatim>\<open>FancyBackslash\<close> set, after a backslash and \<^verbatim>\<open>x\<close> the current state is
  \<^verbatim>\<open>hex\<close>; the rune \<^verbatim>\<open>z\<close> is no hex digit, the byte 0 is appended, \<^verbatim>\<open>normal\<close> becomes
  current and appends \<^verbatim>\<open>z\<close>, and no error is held.
\<close>

theorem hex_escape_hands_rune_back_witness:
  "\<exists>q q'. feed (initq fancyOptions) [92, 120] = Some q \<and> currentFunc q = hex
      \<and> \<not> ((122 :: nat) < 128 \<and> hexDigits ! 122 \<noteq> - 1)
      \<and> buf (pop (buf_WriteRune q (hexValue q))) = [0]
      \<and> nextq q 122 = nextq (pop (buf_WriteRune q (hexValue q))) 122
      \<and> nextq q 122 = Some q' \<and> err q' = None"
proof -
  obtain q where q: "feed (initq fancyOptions) [92, 120] = Some q"
    using feed_initq by blast
  have "map_option currentFunc (feed (initq fancyOptions) [92, 120]) = Some hex"
    and "map_option buf (feed (initq fancyOptions) [92, 120]) = Some []"
    and "map_option hexValue (feed (initq fancyOptions) [92, 120]) = Some 0"
    and "map_option err (feed (initq fancyOptions) [92, 120]) = Some None"
    by code_simp+
  then have h: "currentFunc q = hex" "buf q = []" "hexValue q = 0" "err q = None"
    using q by simp_all
  have d: "\<not> ((122 :: nat) < 128 \<and> hexDigits ! 122 \<noteq> - 1)"
    and e: "AppendRune 0 = [0]"
    by code_simp+
  have "feed (initq fancyOptions) [92, 120] = Some q \<and> currentFunc q = hex
        \<and> \<not> ((122 :: nat) < 128 \<and> hexDigits ! 122 \<noteq> - 1)"
    using q h d by blast
  with hex_escape_hands_rune_back [of fancyOptions "[92, 120]" q 122]
  obtain q' where r: "buf (pop (buf_WriteRune q (hexValue q))) = buf q @ AppendRune (hexValue q)"
    "nextq q 122 = nextq (pop (buf_WriteRune q (hexValue q))) 122"
    "nextq q 122 = Some q'" "err q' = err q"
    by blast
  have b: "buf (pop (buf_WriteRune q (hexValue q))) = [0]" using r(1) h e by simp
  have n: "err q' = None" using r(4) h(4) by simp
  have "feed (initq fancyOptions) [92, 120] = Some q \<and> currentFunc q = hex
      \<and> \<not> ((122 :: nat) < 128 \<and> hexDigits ! 122 \<noteq> - 1)
      \<and> buf (pop (buf_WriteRune q (hexValue q))) = [0]
      \<and> nextq q 122 = nextq (pop (buf_WriteRune q (hexValue q))) 122
      \<and> nextq q 122 = Some q' \<and> err q' = None"
    using q h(1) d b r(2) r(3) n by (simp only: simp_thms)
  then show ?thesis by (intro exI)
qed

section \<open>C7: end of input inside quotes\<close>

lemma last_index_le: "idxOK q \<Longrightarrow> last (0 # indexes q) \<le> length (buf q)"
  by (cases "indexes q = []") (auto simp: idxOK_def)

lemma finish_quoted:
  assumes w: "wf q" and i: "idxOK q" and t: "last (states q) = quoted"
  shows "\<exists>ws. finish q = Some (ws @ [drop (last (0 # indexes q)) (buf q)], Some MismatchedQuote)"
proof -
  have p: "partial q" using w t by (auto simp: wf_def validStacks_def)
  have a: "atEnd q = Some (q\<lparr>err := Some MismatchedQuote\<rparr>)"
    using atEnd_wf [OF w] t by simp
  have "sorted (0 # indexes q)" "\<forall>i \<in> set (indexes q). i \<le> length (buf q)"
    using i by (simp_all add: idxOK_def)
  then obtain ws where ws: "cutWords (buf q) 0 (indexes q) = Some ws"
    using cut_total by blast
  have "cutWords (buf q) 0 (indexes q @ [length (buf q)])
        = Some (ws @ [take (length (buf q) - last (0 # indexes q))
                           (drop (last (0 # indexes q)) (buf q))])"
    using cut_snoc [OF ws last_index_le [OF i]] by simp
  then show ?thesis
    using a p by (simp add: finish_def Let_def newWord_def)
qed

text \<open>
  C7. When the loop ends with \<^verbatim>\<open>quoted\<close> on top of the stack, \<^verbatim>\<open>Split\<close> returns the error
  "mismatched quote" and still closes the word in progress: the last word returned is
  what the buffer holds after the last recorded index. With no options, the input made
  of a double quote and \<^verbatim>\<open>foo\<close> gives the word \<^verbatim>\<open>foo\<close> and the error "mismatched quote".
\<close>

theorem unterminated_quote_keeps_word:
  "(feed (initq qopt) (range_runes s) = Some q \<and> last (states q) = quoted \<longrightarrow>
      (\<exists>ws. Split s qopt
         = Some (ws @ [drop (last (0 # indexes q)) (buf q)], Some MismatchedQuote)))
   \<and> Split (bytes ([CHR 0x22] @ ''foo'')) None = Some ([bytes ''foo''], Some MismatchedQuote)"
proof -
  have ex: "Split (bytes ([CHR 0x22] @ ''foo'')) None = Some ([bytes ''foo''], Some MismatchedQuote)"
    by code_simp
  have "\<exists>ws. Split s qopt
         = Some (ws @ [drop (last (0 # indexes q)) (buf q)], Some MismatchedQuote)"
    if run: "feed (initq qopt) (range_runes s) = Some q" and t: "last (states q) = quoted"
  proof -
    have "wf q" "idxOK q" using feed_wf [OF run] by simp_all
    then show ?thesis using finish_quoted [OF _ _ t] run by (simp add: Split_def)
  qed
  then show ?thesis using ex by blast
qed

text \<open>
  C7, witness: with no options, the run on \<^verbatim>\<open>a\<close>, a space, a double quote and \<^verbatim>\<open>b c\<close> ends
  with \<^verbatim>\<open>quoted\<close> on top; the last word returned is \<^verbatim>\<open>b c\<close> and the error is "mismatched
  quote".
\<close>

theorem unterminated_quote_keeps_word_witness:
  "\<exists>q ws. feed (initq None) (range_runes (bytes (''a '' @ [CHR 0x22] @ ''b c''))) = Some q
      \<and> last (states q) = quoted
      \<and> Split (bytes (''a '' @ [CHR 0x22] @ ''b c'')) None
        = Some (ws @ [bytes ''b c''], Some MismatchedQuote)"
proof -
  let ?s = "bytes (''a '' @ [CHR 0x22] @ ''b c'')"
  obtain q where q: "feed (initq None) (range_runes ?s) = Some q"
    using feed_initq by blast
  have "map_option (last \<circ> states) (feed (initq None) (range_runes ?s)) = Some quoted"
    and "map_option indexes (feed (initq None) (range_runes ?s)) = Some [1]"
    and "map_option buf (feed (initq None) (range_runes ?s)) = Some (bytes ''ab c'')"
    by code_simp+
  then have h: "last (states q) = quoted" "indexes q = [1]" "buf q = bytes ''ab c''"
    using q by simp_all
  have "feed (initq None) (range_runes ?s) = Some q \<and> last (states q) = quoted"
    using q h(1) by (simp only: simp_thms)
  with unterminated_quote_keeps_word [of None ?s q]
  obtain ws where "Split ?s None
      = Some (ws @ [drop (last (0 # indexes q)) (buf q)], Some MismatchedQuote)"
    by blast
  moreover have "drop (last (0 # indexes q)) (buf q) = bytes ''b c''"
    using h by (simp add: bytes_def)
  ultimately have "feed (initq None) (range_runes ?s) = Some q \<and> last (states q) = quoted
      \<and> Split ?s None = Some (ws @ [bytes ''b c''], Some MismatchedQuote)"
    using q h(1) by (simp only: simp_thms)
  then show ?thesis by (intro exI)
qed

section \<open>C9: what separates words\<close>

lemma isspace_initq:
  "isspace (initq qopt) c
   = (if OnlySpaceIsSpace (optionsOf qopt) then c = 0x20 else unicode_IsSpace c)"
  by (simp add: initq_def Let_def isExactSpace_def rn_def)

lemma stateNormal_newWord: "(stateNormal q c = newWord q) = isspace q c"
proof (cases "isspace q c")
  case True
  then show ?thesis by (simp add: stateNormal_def)
next
  case False
  have "partial (stateNormal q c)" using False by (simp add: stateNormal_def)
  moreover have "\<not> partial (newWord q)" by (simp add: newWord_fields)
  ultimately have "stateNormal q c \<noteq> newWord q" by metis
  then show ?thesis using False by simp
qed

text \<open>
  C9. In a run of \<^verbatim>\<open>Split\<close>, when \<^verbatim>\<open>normal\<close> is the current state the step returns, and it
  is the call of \<^verbatim>\<open>newWord\<close> that closes the word in progress exactly when the rune is
  U+0020, if \<^verbatim>\<open>OnlySpaceIsSpace\<close> is set, and exactly when \<^verbatim>\<open>unicode.IsSpace\<close> holds of the
  rune, if it is not set. A nil pointer for the options gives what the zero value of
  \<^verbatim>\<open>Options\<close> gives. The input made of \<^verbatim>\<open>a\<close>, a tab and \<^verbatim>\<open>b\<close> gives the two words \<^verbatim>\<open>a\<close> and
  \<^verbatim>\<open>b\<close> with nil options and with the zero value, and the single word with the tab in it
  when \<^verbatim>\<open>OnlySpaceIsSpace\<close> is set.
\<close>

theorem separators_follow_OnlySpaceIsSpace:
  "(feed (initq qopt) cs = Some q \<and> currentFunc q = normal \<longrightarrow>
      (\<exists>q'. nextq q c = Some q')
      \<and> (nextq q c = Some (newWord q))
        = (if OnlySpaceIsSpace (optionsOf qopt) then c = 0x20 else unicode_IsSpace c))
   \<and> Split s None = Split s (Some zeroOptions)
   \<and> Split (bytes ''a'' @ [0x09] @ bytes ''b'') None = Some ([bytes ''a'', bytes ''b''], None)
   \<and> Split (bytes ''a'' @ [0x09] @ bytes ''b'') (Some zeroOptions)
     = Some ([bytes ''a'', bytes ''b''], None)
   \<and> Split (bytes ''a'' @ [0x09] @ bytes ''b'') onlySpaceOptions
     = Some ([bytes ''a'' @ [0x09] @ bytes ''b''], None)"
proof -
  have ex: "Split (bytes ''a'' @ [0x09] @ bytes ''b'') None = Some ([bytes ''a'', bytes ''b''], None)"
    "Split (bytes ''a'' @ [0x09] @ bytes ''b'') (Some zeroOptions)
     = Some ([bytes ''a'', bytes ''b''], None)"
    "Split (bytes ''a'' @ [0x09] @ bytes ''b'') onlySpaceOptions
     = Some ([bytes ''a'' @ [0x09] @ bytes ''b''], None)"
    by code_simp+
  have nil: "Split s None = Split s (Some zeroOptions)"
    by (simp add: Split_def initq_def optionsOf_def)
  have "(\<exists>q'. nextq q c = Some q')
      \<and> (nextq q c = Some (newWord q))
        = (if OnlySpaceIsSpace (optionsOf qopt) then c = 0x20 else unicode_IsSpace c)"
    if run: "feed (initq qopt) cs = Some q" and nm: "currentFunc q = normal"
  proof -
    have "isspace q = isspace (initq qopt)" using feed_config [OF run] by simp
    then have "isspace q c
        = (if OnlySpaceIsSpace (optionsOf qopt) then c = 0x20 else unicode_IsSpace c)"
      using isspace_initq by simp
    moreover have "nextq q c = Some (stateNormal q c)" using nm by (simp add: nextq_def)
    ultimately show ?thesis using stateNormal_newWord [of q c] by simp
  qed
  then show ?thesis using ex nil by blast
qed

text \<open>
  C9, witness: after the rune \<^verbatim>\<open>a\<close> the current state is \<^verbatim>\<open>normal\<close>. With no options a tab
  closes the word, since \<^verbatim>\<open>unicode.IsSpace\<close> holds of it; with \<^verbatim>\<open>OnlySpaceIsSpace\<close> set a tab
  does not close the word and a space does.
\<close>

theorem separators_follow_OnlySpaceIsSpace_witness:
  "(\<exists>q. feed (initq None) [97] = Some q \<and> currentFunc q = normal
        \<and> \<not> OnlySpaceIsSpace (optionsOf None) \<and> unicode_IsSpace 9
        \<and> nextq q 9 = Some (newWord q))
   \<and> (\<exists>q. feed (initq onlySpaceOptions) [97] = Some q \<and> currentFunc q = normal
        \<and> OnlySpaceIsSpace (optionsOf onlySpaceOptions)
        \<and> nextq q 9 \<noteq> Some (newWord q) \<and> nextq q 32 = Some (newWord q))"
proof -
  obtain q where q: "feed (initq None) [97] = Some q" using feed_initq by blast
  obtain p where p: "feed (initq onlySpaceOptions) [97] = Some p" using feed_initq by blast
  have "map_option currentFunc (feed (initq None) [97]) = Some normal"
    and "map_option currentFunc (feed (initq onlySpaceOptions) [97]) = Some normal"
    by code_simp+
  then have h: "currentFunc q = normal" "currentFunc p = normal" using q p by simp_all
  have o: "\<not> OnlySpaceIsSpace (optionsOf None)" "unicode_IsSpace 9"
    "OnlySpaceIsSpace (optionsOf onlySpaceOptions)"
    by code_simp+
  have a: "feed (initq None) [97] = Some q \<and> currentFunc q = normal"
    and b: "feed (initq onlySpaceOptions) [97] = Some p \<and> currentFunc p = normal"
    using q p h by (simp_all only: simp_thms)
  have 1: "nextq q 9 = Some (newWord q)"
    using separators_follow_OnlySpaceIsSpace [of None "[97]" q 9] a o by simp
  have 2: "nextq p 9 \<noteq> Some (newWord p)"
    using separators_follow_OnlySpaceIsSpace [of onlySpaceOptions "[97]" p 9] b o by simp
  have 3: "nextq p 32 = Some (newWord p)"
    using separators_follow_OnlySpaceIsSpace [of onlySpaceOptions "[97]" p 32] b o by simp
  have "feed (initq None) [97] = Some q \<and> currentFunc q = normal
        \<and> \<not> OnlySpaceIsSpace (optionsOf None) \<and> unicode_IsSpace 9
        \<and> nextq q 9 = Some (newWord q)"
    using a o 1 by (simp only: simp_thms)
  then have A: "\<exists>q. feed (initq None) [97] = Some q \<and> currentFunc q = normal
        \<and> \<not> OnlySpaceIsSpace (optionsOf None) \<and> unicode_IsSpace 9
        \<and> nextq q 9 = Some (newWord q)"
    by (intro exI)
  have "feed (initq onlySpaceOptions) [97] = Some p \<and> currentFunc p = normal
        \<and> OnlySpaceIsSpace (optionsOf onlySpaceOptions)
        \<and> nextq p 9 \<noteq> Some (newWord p) \<and> nextq p 32 = Some (newWord p)"
    using b o 2 3 by (simp only: simp_thms)
  then have B: "\<exists>q. feed (initq onlySpaceOptions) [97] = Some q \<and> currentFunc q = normal
        \<and> OnlySpaceIsSpace (optionsOf onlySpaceOptions)
        \<and> nextq q 9 \<noteq> Some (newWord q) \<and> nextq q 32 = Some (newWord q)"
    by (intro exI)
  from A B show ?thesis by (rule conjI)
qed

section \<open>C10: a quote or a backslash starts a word\<close>

lemma quote_backslash_not_space:
  "c = 0x22 \<or> c = 0x5C \<Longrightarrow> \<not> isspace (initq qopt) c"
  by (auto simp: isspace_initq unicode_IsSpace_def)

text \<open>
  C10. In a run of \<^verbatim>\<open>Split\<close>, when \<^verbatim>\<open>normal\<close> is the current state and the next rune is a
  double quote or a backslash, the step returns with a word in progress, although it
  appends nothing to the buffer and records no index. An empty pair of quotes therefore
  gives an empty word: with no options, \<^verbatim>\<open>a\<close>, a space, two double quotes, a space and \<^verbatim>\<open>b\<close>
  give the words \<^verbatim>\<open>a\<close>, the empty word and \<^verbatim>\<open>b\<close>, and two double quotes alone give the
  empty word.
\<close>

theorem quote_starts_a_word:
  "(feed (initq qopt) cs = Some q \<and> currentFunc q = normal \<and> (c = 0x22 \<or> c = 0x5C) \<longrightarrow>
      (\<exists>q'. nextq q c = Some q' \<and> partial q' \<and> buf q' = buf q \<and> indexes q' = indexes q))
   \<and> Split (bytes (''a '' @ [CHR 0x22, CHR 0x22] @ '' b'')) None
     = Some ([bytes ''a'', [], bytes ''b''], None)
   \<and> Split (bytes [CHR 0x22, CHR 0x22]) None = Some ([[]], None)"
proof -
  have ex: "Split (bytes (''a '' @ [CHR 0x22, CHR 0x22] @ '' b'')) None
     = Some ([bytes ''a'', [], bytes ''b''], None)"
    "Split (bytes [CHR 0x22, CHR 0x22]) None = Some ([[]], None)"
    by code_simp+
  have "\<exists>q'. nextq q c = Some q' \<and> partial q' \<and> buf q' = buf q \<and> indexes q' = indexes q"
    if run: "feed (initq qopt) cs = Some q" and nm: "currentFunc q = normal"
      and c: "c = 0x22 \<or> c = 0x5C"
  proof -
    have "isspace q = isspace (initq qopt)" using feed_config [OF run] by simp
    then have ns: "\<not> isspace q c" using quote_backslash_not_space [OF c] by simp
    have "nextq q c = Some (stateNormal q c)" using nm by (simp add: nextq_def)
    then show ?thesis
      using ns c by (auto simp: stateNormal_def rn_def push_fields)
  qed
  then show ?thesis using ex by blast
qed

text \<open>
  C10, witness: with no options, the quoter that \<^verbatim>\<open>Split\<close> starts from has \<^verbatim>\<open>normal\<close> as
  its current state; a double quote makes a word in progress and leaves the buffer empty.
\<close>

theorem quote_starts_a_word_witness:
  "\<exists>q q'. feed (initq None) [] = Some q \<and> currentFunc q = normal
      \<and> ((34 :: nat) = 0x22 \<or> (34 :: nat) = 0x5C)
      \<and> \<not> partial q \<and> nextq q 34 = Some q' \<and> partial q' \<and> buf q' = [] \<and> indexes q' = []"
proof -
  let ?q = "initq None"
  have h: "feed (initq None) [] = Some ?q" "currentFunc ?q = normal" "\<not> partial ?q"
    "buf ?q = []" "indexes ?q = []"
    by (simp_all add: initq_def Let_def)
  have c: "(34 :: nat) = 0x22 \<or> (34 :: nat) = 0x5C" by simp
  have "feed (initq None) [] = Some ?q \<and> currentFunc ?q = normal
        \<and> ((34 :: nat) = 0x22 \<or> (34 :: nat) = 0x5C)"
    using h(1,2) c by (simp only: simp_thms)
  with quote_starts_a_word [of None "[]" ?q 34]
  obtain q' where r: "nextq ?q 34 = Some q'" "partial q'" "buf q' = buf ?q"
    "indexes q' = indexes ?q"
    by blast
  have "feed (initq None) [] = Some ?q \<and> currentFunc ?q = normal
      \<and> ((34 :: nat) = 0x22 \<or> (34 :: nat) = 0x5C)
      \<and> \<not> partial ?q \<and> nextq ?q 34 = Some q' \<and> partial q' \<and> buf q' = [] \<and> indexes q' = []"
    using h c r by (simp only: simp_thms)
  then show ?thesis by (intro exI)
qed

section \<open>C8: a backslash without FancyBackslash\<close>

lemma wf_backslash:
  "wf q \<Longrightarrow> currentFunc q = backslash \<Longrightarrow>
   (states q = [normal, backslash] \<or> states q = [normal, quoted, backslash]) \<and> partial q"
  by (auto simp: wf_def validStacks_def)

lemma wf_normal_quoted:
  "wf q \<Longrightarrow> currentFunc q = normal \<or> currentFunc q = quoted \<Longrightarrow>
   states q = [normal] \<and> currentFunc q = normal
   \<or> states q = [normal, quoted] \<and> currentFunc q = quoted \<and> partial q"
  by (auto simp: wf_def validStacks_def)

lemma push_states: "states q \<noteq> [] \<Longrightarrow> states (push q s) = states q @ [s]"
  by (simp add: push_def Let_def)

lemma backslash_enters:
  assumes run: "feed (initq qopt) cs = Some q"
    and m: "currentFunc q = normal \<or> currentFunc q = quoted"
  shows "\<exists>q1. nextq q 0x5C = Some q1 \<and> currentFunc q1 = backslash
     \<and> states q1 = states q @ [backslash] \<and> buf q1 = buf q \<and> indexes q1 = indexes q
     \<and> partial q1 \<and> err q1 = err q \<and> backslashFn q1 = backslashFn q"
proof -
  have "isspace q = isspace (initq qopt)" using feed_config [OF run] by simp
  then have ns: "\<not> isspace q 0x5C" using quote_backslash_not_space [of "0x5C" qopt] by simp
  have "states q = [normal] \<and> currentFunc q = normal
      \<or> states q = [normal, quoted] \<and> currentFunc q = quoted \<and> partial q"
    using feed_wf [OF run] m wf_normal_quoted by blast
  then show ?thesis
    using ns
    by (auto simp: nextq_def stateNormal_def stateQuoted_def rn_def push_fields push_states)
qed

lemma simple_backslash_step:
  assumes st: "states q = [normal, backslash] \<or> states q = [normal, quoted, backslash]"
    and bs: "currentFunc q = backslash" and p: "partial q"
    and sf: "backslashFn q = simpleBackslashF"
  shows "\<exists>q'. nextq q c = Some q' \<and> buf q' = buf q @ AppendRune (of_nat c)
     \<and> states q' = butlast (states q) \<and> currentFunc q' = last (states q')
     \<and> (currentFunc q' = normal \<or> currentFunc q' = quoted)
     \<and> indexes q' = indexes q \<and> partial q' \<and> err q' = err q"
proof -
  have "nextq q c = Some (pop (buf_WriteRune q (of_nat c)))"
    using bs sf by (simp add: nextq_def stateBackslash_def simpleBackslash_def)
  then show ?thesis
    using st p by (auto simp: pop_states pop_fields buf_WriteRune_fields)
qed

text \<open>
  C8. In a run of \<^verbatim>\<open>Split\<close> without \<^verbatim>\<open>FancyBackslash\<close>: when \<^verbatim>\<open>backslash\<close> is the current
  state the step returns for every next rune, whatever it is, appends the encoding of
  the rune, removes \<^verbatim>\<open>backslash\<close> from the stack, which makes \<^verbatim>\<open>normal\<close> or \<^verbatim>\<open>quoted\<close>
  current again, records no index, keeps the word in progress and leaves the error as it
  was. When \<^verbatim>\<open>normal\<close> or \<^verbatim>\<open>quoted\<close> is the current state, a backslash makes \<^verbatim>\<open>backslash\<close>
  current on top of the same stack and appends nothing; the rune after it, be it a
  space, a double quote or a backslash, is appended, and afterwards the stack and the
  current state are what they were before the backslash: no word was closed, no quoting
  was opened or closed, and no escape is pending. With no options, \<^verbatim>\<open>a\<close>, a backslash, a
  space and \<^verbatim>\<open>b\<close> give the single word \<^verbatim>\<open>a b\<close>; \<^verbatim>\<open>a\<close>, two backslashes, a space and
  \<^verbatim>\<open>b\<close> give the word \<^verbatim>\<open>a\<close> followed by a backslash and the word \<^verbatim>\<open>b\<close>; a backslashed
  double quote outside quotes opens no quoting and inside quotes closes none; a
  backslashed space inside quotes is a space; all with no error.
\<close>

theorem simple_backslash_takes_next_rune:
  "(feed (initq qopt) cs = Some q \<and> \<not> FancyBackslash (optionsOf qopt)
      \<and> currentFunc q = backslash \<longrightarrow>
      (\<exists>q'. nextq q c = Some q' \<and> buf q' = buf q @ AppendRune (of_nat c)
         \<and> states q' = butlast (states q) \<and> currentFunc q' = last (states q')
         \<and> (currentFunc q' = normal \<or> currentFunc q' = quoted)
         \<and> indexes q' = indexes q \<and> partial q' \<and> err q' = err q))
   \<and> (feed (initq qopt) cs = Some q \<and> \<not> FancyBackslash (optionsOf qopt)
      \<and> (currentFunc q = normal \<or> currentFunc q = quoted) \<longrightarrow>
      (\<exists>q1 q'. nextq q 0x5C = Some q1 \<and> currentFunc q1 = backslash
         \<and> states q1 = states q @ [backslash] \<and> buf q1 = buf q \<and> indexes q1 = indexes q
         \<and> nextq q1 c = Some q' \<and> feed q [0x5C, c] = Some q'
         \<and> buf q' = buf q @ AppendRune (of_nat c)
         \<and> states q' = states q \<and> currentFunc q' = currentFunc q
         \<and> indexes q' = indexes q \<and> partial q' \<and> err q' = err q))
   \<and> Split (bytes (''a'' @ [CHR 0x5C] @ '' b'')) None = Some ([bytes ''a b''], None)
   \<and> Split (bytes (''a'' @ [CHR 0x5C, CHR 0x5C] @ '' b'')) None
     = Some ([bytes ''a'' @ [0x5C], bytes ''b''], None)
   \<and> Split (bytes (''a'' @ [CHR 0x5C, CHR 0x22] @ '' b'' @ [CHR 0x5C, CHR 0x22])) None
     = Some ([bytes ''a'' @ [0x22], bytes ''b'' @ [0x22]], None)
   \<and> Split (bytes (''a'' @ [CHR 0x22] @ '' '' @ [CHR 0x5C, CHR 0x22, CHR 0x22] @ '' b'')) None
     = Some ([bytes ''a '' @ [0x22], bytes ''b''], None)
   \<and> Split (bytes (''a '' @ [CHR 0x22] @ ''b'' @ [CHR 0x5C] @ '' c'' @ [CHR 0x22] @ '' d'')) None
     = Some ([bytes ''a'', bytes ''b c'', bytes ''d''], None)"
proof -
  have ex: "Split (bytes (''a'' @ [CHR 0x5C] @ '' b'')) None = Some ([bytes ''a b''], None)"
    "Split (bytes (''a'' @ [CHR 0x5C, CHR 0x5C] @ '' b'')) None
     = Some ([bytes ''a'' @ [0x5C], bytes ''b''], None)"
    "Split (bytes (''a'' @ [CHR 0x5C, CHR 0x22] @ '' b'' @ [CHR 0x5C, CHR 0x22])) None
     = Some ([bytes ''a'' @ [0x22], bytes ''b'' @ [0x22]], None)"
    "Split (bytes (''a'' @ [CHR 0x22] @ '' '' @ [CHR 0x5C, CHR 0x22, CHR 0x22] @ '' b'')) None
     = Some ([bytes ''a '' @ [0x22], bytes ''b''], None)"
    "Split (bytes (''a '' @ [CHR 0x22] @ ''b'' @ [CHR 0x5C] @ '' c'' @ [CHR 0x22] @ '' d'')) None
     = Some ([bytes ''a'', bytes ''b c'', bytes ''d''], None)"
    by code_simp+
  have one: "\<exists>q'. nextq q c = Some q' \<and> buf q' = buf q @ AppendRune (of_nat c)
         \<and> states q' = butlast (states q) \<and> currentFunc q' = last (states q')
         \<and> (currentFunc q' = normal \<or> currentFunc q' = quoted)
         \<and> indexes q' = indexes q \<and> partial q' \<and> err q' = err q"
    if run: "feed (initq qopt) cs = Some q" and nf: "\<not> FancyBackslash (optionsOf qopt)"
      and bs: "currentFunc q = backslash"
  proof -
    have sf: "backslashFn q = simpleBackslashF"
      using feed_config [OF run] nf by (simp add: initq_def Let_def)
    have "(states q = [normal, backslash] \<or> states q = [normal, quoted, backslash]) \<and> partial q"
      using feed_wf [OF run] bs wf_backslash by blast
    then show ?thesis using simple_backslash_step [OF _ bs _ sf] by blast
  qed
  have two: "\<exists>q1 q'. nextq q 0x5C = Some q1 \<and> currentFunc q1 = backslash
         \<and> states q1 = states q @ [backslash] \<and> buf q1 = buf q \<and> indexes q1 = indexes q
         \<and> nextq q1 c = Some q' \<and> feed q [0x5C, c] = Some q'
         \<and> buf q' = buf q @ AppendRune (of_nat c)
         \<and> states q' = states q \<and> currentFunc q' = currentFunc q
         \<and> indexes q' = indexes q \<and> partial q' \<and> err q' = err q"
    if run: "feed (initq qopt) cs = Some q" and nf: "\<not> FancyBackslash (optionsOf qopt)"
      and m: "currentFunc q = normal \<or> currentFunc q = quoted"
  proof -
    have sf: "backslashFn q = simpleBackslashF"
      using feed_config [OF run] nf by (simp add: initq_def Let_def)
    have shape: "states q = [normal] \<and> currentFunc q = normal
        \<or> states q = [normal, quoted] \<and> currentFunc q = quoted \<and> partial q"
      using feed_wf [OF run] m wf_normal_quoted by blast
    obtain q1 where q1: "nextq q 0x5C = Some q1" "currentFunc q1 = backslash"
      "states q1 = states q @ [backslash]" "buf q1 = buf q" "indexes q1 = indexes q"
      "partial q1" "err q1 = err q" "backslashFn q1 = backslashFn q"
      using backslash_enters [OF run m] by blast
    have st1: "states q1 = [normal, backslash] \<or> states q1 = [normal, quoted, backslash]"
      using shape q1(3) by auto
    obtain q' where q': "nextq q1 c = Some q'" "buf q' = buf q1 @ AppendRune (of_nat c)"
      "states q' = butlast (states q1)" "currentFunc q' = last (states q')"
      "indexes q' = indexes q1" "partial q'" "err q' = err q1"
      using simple_backslash_step [OF st1 q1(2) q1(6), of c] sf q1(8) by auto
    have f: "feed q [0x5C, c] = Some q'" using q1(1) q'(1) by simp
    have s: "states q' = states q" using q'(3) q1(3) by simp
    have c: "currentFunc q' = currentFunc q" using q'(4) s shape by auto
    show ?thesis
      using q1(1-5) q'(1,2,5,6,7) q1(7) f s c by auto
  qed
  show ?thesis using one two ex by blast
qed

text \<open>
  C8, witness: with no options, after \<^verbatim>\<open>a\<close> and a backslash the current state is
  \<^verbatim>\<open>backslash\<close>; a space is then appended to the buffer like any other rune, no index is
  recorded and \<^verbatim>\<open>normal\<close> is current again. After \<^verbatim>\<open>a\<close> and a double quote the current
  state is \<^verbatim>\<open>quoted\<close>; a backslash and a double quote then append the double quote, and
  \<^verbatim>\<open>quoted\<close> is still current on the same stack.
\<close>

theorem simple_backslash_takes_next_rune_witness:
  "(\<exists>q q'. feed (initq None) [97, 92] = Some q \<and> \<not> FancyBackslash (optionsOf None)
      \<and> currentFunc q = backslash \<and> nextq q 32 = Some q' \<and> buf q' = [97, 32]
      \<and> indexes q' = [] \<and> currentFunc q' = normal)
   \<and> (\<exists>q q1 q'. feed (initq None) [97, 34] = Some q \<and> \<not> FancyBackslash (optionsOf None)
      \<and> (currentFunc q = normal \<or> currentFunc q = quoted) \<and> currentFunc q = quoted
      \<and> nextq q 0x5C = Some q1 \<and> currentFunc q1 = backslash
      \<and> states q1 = [normal, quoted, backslash]
      \<and> nextq q1 34 = Some q' \<and> feed q [0x5C, 34] = Some q' \<and> buf q' = [97, 34]
      \<and> states q' = [normal, quoted] \<and> currentFunc q' = quoted)"
proof -
  obtain q where q: "feed (initq None) [97, 92] = Some q"
    using feed_initq by blast
  have "map_option currentFunc (feed (initq None) [97, 92]) = Some backslash"
    and "map_option buf (feed (initq None) [97, 92]) = Some [97]"
    and "map_option indexes (feed (initq None) [97, 92]) = Some []"
    and "map_option states (feed (initq None) [97, 92]) = Some [normal, backslash]"
    by code_simp+
  then have h: "currentFunc q = backslash" "buf q = [97]" "indexes q = []"
    "states q = [normal, backslash]"
    using q by simp_all
  have nf: "\<not> FancyBackslash (optionsOf None)" and e: "AppendRune (of_nat 32) = [32]"
    and e2: "AppendRune (of_nat 34) = [34]"
    by code_simp+
  have "feed (initq None) [97, 92] = Some q \<and> \<not> FancyBackslash (optionsOf None)
        \<and> currentFunc q = backslash"
    using q nf h(1) by (simp only: simp_thms)
  with simple_backslash_takes_next_rune [of None "[97, 92]" q 32]
  obtain q' where r: "nextq q 32 = Some q'" "buf q' = buf q @ AppendRune (of_nat 32)"
    "states q' = butlast (states q)" "currentFunc q' = last (states q')"
    "indexes q' = indexes q"
    by blast
  have c: "currentFunc q' = normal" using r(3,4) h(4) by simp
  have "feed (initq None) [97, 92] = Some q \<and> \<not> FancyBackslash (optionsOf None)
      \<and> currentFunc q = backslash \<and> nextq q 32 = Some q' \<and> buf q' = [97, 32]
      \<and> indexes q' = [] \<and> currentFunc q' = normal"
    using q nf h r(1,2,5) e c by simp
  then have A: "\<exists>q q'. feed (initq None) [97, 92] = Some q \<and> \<not> FancyBackslash (optionsOf None)
      \<and> currentFunc q = backslash \<and> nextq q 32 = Some q' \<and> buf q' = [97, 32]
      \<and> indexes q' = [] \<and> currentFunc q' = normal"
    by (intro exI)
  obtain p where p: "feed (initq None) [97, 34] = Some p"
    using feed_initq by blast
  have "map_option currentFunc (feed (initq None) [97, 34]) = Some quoted"
    and "map_option buf (feed (initq None) [97, 34]) = Some [97]"
    and "map_option states (feed (initq None) [97, 34]) = Some [normal, quoted]"
    by code_simp+
  then have g: "currentFunc p = quoted" "buf p = [97]" "states p = [normal, quoted]"
    using p by simp_all
  have "feed (initq None) [97, 34] = Some p \<and> \<not> FancyBackslash (optionsOf None)
        \<and> (currentFunc p = normal \<or> currentFunc p = quoted)"
    using p nf g(1) by (simp only: simp_thms)
  with simple_backslash_takes_next_rune [of None "[97, 34]" p 34]
  obtain p1 p' where t: "nextq p 0x5C = Some p1" "currentFunc p1 = backslash"
    "states p1 = states p @ [backslash]" "nextq p1 34 = Some p'" "feed p [0x5C, 34] = Some p'"
    "buf p' = buf p @ AppendRune (of_nat 34)" "states p' = states p"
    "currentFunc p' = currentFunc p"
    by blast
  have u: "states p1 = [normal, quoted, backslash]" "buf p' = [97, 34]"
    "states p' = [normal, quoted]" "currentFunc p' = quoted"
    using t(3,6,7,8) g e2 by simp_all
  have "feed (initq None) [97, 34] = Some p \<and> \<not> FancyBackslash (optionsOf None)
      \<and> (currentFunc p = normal \<or> currentFunc p = quoted) \<and> currentFunc p = quoted
      \<and> nextq p 0x5C = Some p1 \<and> currentFunc p1 = backslash
      \<and> states p1 = [normal, quoted, backslash]
      \<and> nextq p1 34 = Some p' \<and> feed p [0x5C, 34] = Some p' \<and> buf p' = [97, 34]
      \<and> states p' = [normal, quoted] \<and> currentFunc p' = quoted"
    using p nf g(1) t(1,2,4,5) u by (simp only: simp_thms)
  then have B: "\<exists>q q1 q'. feed (initq None) [97, 34] = Some q \<and> \<not> FancyBackslash (optionsOf None)
      \<and> (currentFunc q = normal \<or> currentFunc q = quoted) \<and> currentFunc q = quoted
      \<and> nextq q 0x5C = Some q1 \<and> currentFunc q1 = backslash
      \<and> states q1 = [normal, quoted, backslash]
      \<and> nextq q1 34 = Some q' \<and> feed q [0x5C, 34] = Some q' \<and> buf q' = [97, 34]
      \<and> states q' = [normal, quoted] \<and> currentFunc q' = quoted"
    by (intro exI)
  from A B show ?thesis by (rule conjI)
qed

end
